theory Spec2Isabelle
  imports Complex_Main
begin

section \<open>Road plan-view geometry of pyodrx (geometry.py)\<close>

text \<open>
  Python floats are modelled as real numbers, so every statement below is about the
  arithmetic the code writes down, free of rounding. Two different computations that
  agree over the reals may differ in the last digits in double precision; the theorems
  therefore relate a value to the computation that produced it, or to a repetition of
  that same computation on the same fields. An optional argument or attribute
  that may hold \<open>None\<close> is a \<open>real option\<close>. Exceptions are values of \<open>error\<close>.
\<close>

subsection \<open>Errors, truthiness and the numerical library\<close>

datatype error = ValueError string | TypeError | ZeroDivisionError | IndexError

text \<open>Python's \<open>if v:\<close> on a float or \<open>None\<close>: false for \<open>None\<close> and for zero.\<close>

fun truthy :: "real option \<Rightarrow> bool" where
  "truthy None = False"
| "truthy (Some v) = (v \<noteq> 0)"

text \<open>
  \<open>scipy.integrate.quad\<close> and \<open>scipy.special.fresnel\<close> are library routines outside
  the repository. They are parameters of the model: \<open>quad f a b\<close> returns the pair (value,
  error estimate) and \<open>fresnel z\<close> the pair (S, C).
\<close>

record numlib =
  quad :: "(real \<Rightarrow> real) \<Rightarrow> real \<Rightarrow> real \<Rightarrow> real \<times> real"
  fresnel :: "real \<Rightarrow> real \<times> real"

text \<open>\<open>numpy.arctan2 y x\<close> on real arguments: the angle of the point (x, y) in (-pi, pi].\<close>

definition arctan2 :: "real \<Rightarrow> real \<Rightarrow> real" where
  "arctan2 y x =
     (if 0 < x then arctan (y / x)
      else if x < 0 then (if 0 \<le> y then arctan (y / x) + pi else arctan (y / x) - pi)
      else if 0 < y then pi / 2
      else if y < 0 then - (pi / 2)
      else 0)"

subsection \<open>Segment specs\<close>

record line =
  line_length :: real

record spiral =
  curvstart :: real
  curvend :: real
  spiral_length :: real

record arc =
  curvature :: real
  arc_length :: "real option"
  angle :: "real option"

record parampoly3 =
  au :: real
  bu :: real
  cu :: real
  du :: real
  av :: real
  bv :: real
  cv :: real
  dv :: real
  prange :: string
  pp_length :: "real option"

datatype geom = Line line | Spiral spiral | Arc arc | ParamPoly3 parampoly3

text \<open>What \<open>get_end_data\<close> returns: end x, end y, end heading, and the length attribute.\<close>

type_synonym end_data = "real \<times> real \<times> real \<times> real option"

subsection \<open>Constructors\<close>

definition Line_init :: "real \<Rightarrow> error + line" where
  "Line_init length' = Inr \<lparr>line_length = length'\<rparr>"

definition Spiral_init :: "real \<Rightarrow> real \<Rightarrow> real \<Rightarrow> error + spiral" where
  "Spiral_init curvstart' curvend' length' =
     Inr \<lparr>curvstart = curvstart', curvend = curvend', spiral_length = length'\<rparr>"

definition Arc_init :: "real \<Rightarrow> real option \<Rightarrow> real option \<Rightarrow> error + arc" where
  "Arc_init curvature' length' angle' =
     (if length' = None \<and> angle' = None then
        Inl (ValueError ''neither length nor angle defined, for arc'')
      else if length' \<noteq> None \<and> angle' \<noteq> None then
        Inl (ValueError ''both length and angle set, only one is requiered'')
      else if curvature' = 0 then
        Inl (ValueError ''You are creating a straight line, please use Line instead'')
      else Inr \<lparr>curvature = curvature', arc_length = length', angle = angle'\<rparr>)"

definition ParamPoly3_init ::
  "real \<Rightarrow> real \<Rightarrow> real \<Rightarrow> real \<Rightarrow> real \<Rightarrow> real \<Rightarrow> real \<Rightarrow> real \<Rightarrow> string \<Rightarrow> real option
     \<Rightarrow> error + parampoly3" where
  "ParamPoly3_init au' bu' cu' du' av' bv' cv' dv' prange' length' =
     (if prange' = ''arcLength'' \<and> length' = None then
        Inl (ValueError ''No length was provided for Arc with arcLength option'')
      else Inr \<lparr>au = au', bu = bu', cu = cu', du = du', av = av', bv = bv', cv = cv',
                dv = dv', prange = prange', pp_length = length'\<rparr>)"

text \<open>Construction of a segment spec of any of the four kinds, from its arguments.\<close>

datatype ctor_args =
    LineArgs real
  | SpiralArgs real real real
  | ArcArgs real "real option" "real option"
  | ParamPoly3Args real real real real real real real real string "real option"

fun construct :: "ctor_args \<Rightarrow> error + geom" where
  "construct (LineArgs l) = map_sum id Line (Line_init l)"
| "construct (SpiralArgs cs ce l) = map_sum id Spiral (Spiral_init cs ce l)"
| "construct (ArcArgs k l a) = map_sum id Arc (Arc_init k l a)"
| "construct (ParamPoly3Args a1 b1 c1 d1 a2 b2 c2 d2 pr l) =
     map_sum id ParamPoly3 (ParamPoly3_init a1 b1 c1 d1 a2 b2 c2 d2 pr l)"

subsection \<open>Line\<close>

definition Line_get_end_data :: "line \<Rightarrow> real \<Rightarrow> real \<Rightarrow> real \<Rightarrow> end_data" where
  "Line_get_end_data self x y h =
     (let new_x = line_length self * cos h + x;
          new_y = line_length self * sin h + y;
          new_h = h
      in (new_x, new_y, new_h, Some (line_length self)))"

subsection \<open>Euler spiral and Spiral\<close>

record eulerspiral =
  gamma :: real

text \<open>Python's float division raises on a zero divisor.\<close>

definition createFromLengthAndCurvature :: "real \<Rightarrow> real \<Rightarrow> real \<Rightarrow> error + eulerspiral" where
  "createFromLengthAndCurvature length' curvStart curvEnd =
     (if length' = 0 then Inl ZeroDivisionError
      else Inr \<lparr>gamma = 1 * (curvEnd - curvStart) / length'\<rparr>)"

definition calc ::
  "numlib \<Rightarrow> eulerspiral \<Rightarrow> real \<Rightarrow> real \<Rightarrow> real \<Rightarrow> real \<Rightarrow> real \<Rightarrow> real \<times> real \<times> real" where
  "calc lib self s x0 y0 kappa0 theta0 =
     (let C0 = of_real x0 + \<i> * of_real y0;
          Cs =
            (if gamma self = 0 \<and> kappa0 = 0 then
               C0 + of_real s * exp (\<i> * of_real theta0)
             else if gamma self = 0 \<and> kappa0 \<noteq> 0 then
               C0 + exp (\<i> * of_real theta0) / of_real kappa0
                     * (of_real (sin (kappa0 * s)) + \<i> * of_real (1 - cos (kappa0 * s)))
             else
               (let (Sa, Ca) = fresnel lib ((kappa0 + gamma self * s) / sqrt (pi * \<bar>gamma self\<bar>));
                    (Sb, Cb) = fresnel lib (kappa0 / sqrt (pi * \<bar>gamma self\<bar>));
                    Cs1 = of_real (sqrt (pi / \<bar>gamma self\<bar>))
                            * exp (\<i> * of_real (theta0 - kappa0\<^sup>2 / 2 / gamma self));
                    Cs2 = of_real (sgn (gamma self) * (Ca - Cb)) + \<i> * of_real Sa - \<i> * of_real Sb
                in C0 + Cs1 * Cs2));
          theta = gamma self * s\<^sup>2 / 2 + kappa0 * s + theta0
      in (Re Cs, Im Cs, theta))"

definition Spiral_get_end_data ::
  "numlib \<Rightarrow> spiral \<Rightarrow> real \<Rightarrow> real \<Rightarrow> real \<Rightarrow> error + end_data" where
  "Spiral_get_end_data lib self x y h =
     (case createFromLengthAndCurvature (spiral_length self) (curvstart self) (curvend self) of
        Inl e \<Rightarrow> Inl e
      | Inr spiral' \<Rightarrow>
          (let (deltax, deltay, t) = calc lib spiral' (spiral_length self) x y (curvstart self) h
           in Inr (deltax, deltay, t, Some (spiral_length self))))"

subsection \<open>Arc\<close>

text \<open>
  The radius, the angle \<open>phi_0\<close> and the centre \<open>(x_0, y_0)\<close> that \<open>Arc.get_end_data\<close>
  computes first. The constructor refuses a zero curvature, so the division is defined on
  every constructed arc; statements about arcs assume a nonzero curvature.
\<close>

definition Arc_radius :: "arc \<Rightarrow> real" where
  "Arc_radius self = 1 / \<bar>curvature self\<bar>"

definition Arc_center :: "arc \<Rightarrow> real \<Rightarrow> real \<Rightarrow> real \<Rightarrow> real \<times> real \<times> real" where
  "Arc_center self x y h =
     (let radius = Arc_radius self
      in if curvature self < 0 then
           (let phi_0 = h + pi / 2;
                x_0 = x - cos phi_0 * radius;
                y_0 = y - sin phi_0 * radius
            in (phi_0, x_0, y_0))
         else
           (let phi_0 = h - pi / 2;
                x_0 = x - cos phi_0 * radius;
                y_0 = y - sin phi_0 * radius
            in (phi_0, x_0, y_0)))"

text \<open>
  The evaluation writes the derived angle and length back to the object; the updated
  object is returned with the result. Adding \<open>None\<close> to a float raises.
\<close>

definition Arc_get_end_data :: "arc \<Rightarrow> real \<Rightarrow> real \<Rightarrow> real \<Rightarrow> error + end_data \<times> arc" where
  "Arc_get_end_data self x y h =
     (let radius = Arc_radius self;
          (phi_0, x_0, y_0) = Arc_center self x y h;
          self1 = (if truthy (arc_length self)
                   then self\<lparr>angle := Some (the (arc_length self) * curvature self)\<rparr>
                   else self)
      in case angle self1 of
           None \<Rightarrow> Inl TypeError
         | Some ang \<Rightarrow>
             (let new_ang = ang + phi_0;
                  self2 = (if truthy (angle self1)
                           then self1\<lparr>arc_length := Some \<bar>radius * ang\<bar>\<rparr>
                           else self1);
                  new_h = h + ang;
                  new_x = cos new_ang * radius + x_0;
                  new_y = sin new_ang * radius + y_0
              in Inr ((new_x, new_y, new_h, arc_length self2), self2)))"

subsection \<open>ParamPoly3\<close>

definition integrand :: "parampoly3 \<Rightarrow> real \<Rightarrow> real" where
  "integrand self p =
     sqrt ((bu self ^ 2 + bv self ^ 2)
           + 4 * (bu self * cu self + bv self * cv self) * p
           + 2 * (3 * bu self * du self + 2 * cu self ^ 2 + 3 * bv self * dv self
                  + 2 * cv self ^ 2) * p ^ 2
           + 12 * (cu self * du self + cv self * dv self) * p ^ 3
           + 9 * (du self ^ 2 + dv self ^ 2) * p ^ 4)"

text \<open>
  In normalized mode the integral is stored in the object's length. In the other mode
  the parameter is the stored length, and multiplying a float by \<open>None\<close> raises.
\<close>

definition ParamPoly3_get_end_data ::
  "numlib \<Rightarrow> parampoly3 \<Rightarrow> real \<Rightarrow> real \<Rightarrow> real \<Rightarrow> error + end_data \<times> parampoly3" where
  "ParamPoly3_get_end_data lib self x y h =
     (let (self1, p') =
            (if prange self = ''normalized''
             then (self\<lparr>pp_length := Some (fst (quad lib (integrand self) 0 1))\<rparr>, Some 1)
             else (self, pp_length self))
      in case p' of
           None \<Rightarrow> Inl TypeError
         | Some p \<Rightarrow>
             (let newu = au self1 + bu self1 * p + cu self1 * p ^ 2 + du self1 * p ^ 3;
                  newv = av self1 + bv self1 * p + cv self1 * p ^ 2 + dv self1 * p ^ 3;
                  new_x = x + newu * cos h - sin h * newv;
                  new_y = y + newu * sin h + cos h * newv;
                  new_h = h + arctan2 (bv self1 + cv self1 * p + dv self1 * p ^ 2)
                                      (bu self1 + cu self1 * p + du self1 * p ^ 2)
              in Inr ((new_x, new_y, new_h, pp_length self1), self1)))"

subsection \<open>Evaluation of any segment spec\<close>

fun get_end_data :: "numlib \<Rightarrow> geom \<Rightarrow> real \<Rightarrow> real \<Rightarrow> real \<Rightarrow> error + end_data \<times> geom" where
  "get_end_data lib (Line self) x y h = Inr (Line_get_end_data self x y h, Line self)"
| "get_end_data lib (Spiral self) x y h =
     (case Spiral_get_end_data lib self x y h of
        Inl e \<Rightarrow> Inl e | Inr r \<Rightarrow> Inr (r, Spiral self))"
| "get_end_data lib (Arc self) x y h =
     (case Arc_get_end_data self x y h of
        Inl e \<Rightarrow> Inl e | Inr (r, self') \<Rightarrow> Inr (r, Arc self'))"
| "get_end_data lib (ParamPoly3 self) x y h =
     (case ParamPoly3_get_end_data lib self x y h of
        Inl e \<Rightarrow> Inl e | Inr (r, self') \<Rightarrow> Inr (r, ParamPoly3 self'))"

subsection \<open>Geometry: a segment spec bound to a start pose\<close>

text \<open>
  Segment specs are Python objects that evaluation mutates and that a plan view and its
  geometries share by reference. The model keeps them in a store from addresses to specs;
  a geometry and the raw-geometry list hold addresses.
\<close>

type_synonym addr = nat
type_synonym store = "addr \<Rightarrow> geom"

record geometry =
  g_s :: real
  g_x :: real
  g_y :: real
  g_heading :: real
  geom_type :: addr
  g_length :: "real option"

definition Geometry_init ::
  "numlib \<Rightarrow> real \<Rightarrow> real \<Rightarrow> real \<Rightarrow> real \<Rightarrow> addr \<Rightarrow> store \<Rightarrow> error + geometry \<times> store" where
  "Geometry_init lib s x y heading' geom_type' st =
     (case get_end_data lib (st geom_type') x y heading' of
        Inl e \<Rightarrow> Inl e
      | Inr ((_, _, _, length'), spec') \<Rightarrow>
          Inr (\<lparr>g_s = s, g_x = x, g_y = y, g_heading = heading', geom_type = geom_type',
                g_length = length'\<rparr>,
               st(geom_type' := spec')))"

definition Geometry_get_end_data ::
  "numlib \<Rightarrow> geometry \<Rightarrow> store \<Rightarrow> error + end_data \<times> store" where
  "Geometry_get_end_data lib self st =
     (case get_end_data lib (st (geom_type self)) (g_x self) (g_y self) (g_heading self) of
        Inl e \<Rightarrow> Inl e
      | Inr (r, spec') \<Rightarrow> Inr (r, st(geom_type self := spec')))"

subsection \<open>PlanView\<close>

record planview =
  present_x :: real
  present_y :: real
  present_h :: real
  present_s :: real
  raw_geometries :: "addr list"
  adjusted_geometries :: "geometry list"
  overridden_headings :: "real list"

text \<open>The constructor takes a start pose and ignores it.\<close>

definition PlanView_init :: "real \<Rightarrow> real \<Rightarrow> real \<Rightarrow> planview" where
  "PlanView_init x_start y_start h_start =
     \<lparr>present_x = 0, present_y = 0, present_h = 0, present_s = 0,
      raw_geometries = [], adjusted_geometries = [], overridden_headings = []\<rparr>"

definition add_geometry :: "planview \<Rightarrow> addr \<Rightarrow> real option \<Rightarrow> planview" where
  "add_geometry self geom' heading' =
     (let self1 = (if truthy heading'
                   then self\<lparr>overridden_headings := overridden_headings self @ [the heading']\<rparr>
                   else self)
      in self1\<lparr>raw_geometries := raw_geometries self1 @ [geom']\<rparr>)"

definition set_start_point :: "planview \<Rightarrow> real \<Rightarrow> real \<Rightarrow> real \<Rightarrow> planview" where
  "set_start_point self x_start y_start h_start =
     self\<lparr>present_x := x_start, present_y := y_start, present_h := h_start\<rparr>"

text \<open>
  One pass of the loop body of \<open>adjust_geometires\<close> at index \<open>i\<close>. An exception leaves the
  objects as they are at that moment, so a failure carries the state reached.
\<close>

definition adjust_step ::
  "numlib \<Rightarrow> nat \<Rightarrow> store \<times> planview \<Rightarrow> error \<times> store \<times> planview + store \<times> planview" where
  "adjust_step lib i w =
     (let (st, self) = w
      in if length (overridden_headings self) > 0 \<and> \<not> i < length (overridden_headings self)
         then Inl (IndexError, st, self)
         else
           (let self1 = (if length (overridden_headings self) > 0
                         then self\<lparr>present_h := overridden_headings self ! i\<rparr>
                         else self)
            in if \<not> i < length (raw_geometries self1) then Inl (IndexError, st, self1)
               else
                 (case Geometry_init lib (present_s self1) (present_x self1) (present_y self1)
                         (present_h self1) (raw_geometries self1 ! i) st of
                    Inl e \<Rightarrow> Inl (e, st, self1)
                  | Inr (newgeom, st1) \<Rightarrow>
                      (case Geometry_get_end_data lib newgeom st1 of
                         Inl e \<Rightarrow> Inl (e, st1, self1)
                       | Inr ((x', y', h', length'), st2) \<Rightarrow>
                           (let self2 = self1\<lparr>present_x := x', present_y := y', present_h := h'\<rparr>
                            in case length' of
                                 None \<Rightarrow> Inl (TypeError, st2, self2)
                               | Some l \<Rightarrow>
                                   Inr (st2,
                                        self2\<lparr>present_s := present_s self2 + l,
                                               adjusted_geometries :=
                                                 adjusted_geometries self2 @ [newgeom]\<rparr>))))))"

fun adjust_loop ::
  "numlib \<Rightarrow> nat list \<Rightarrow> store \<times> planview \<Rightarrow> error \<times> store \<times> planview + store \<times> planview" where
  "adjust_loop lib [] w = Inr w"
| "adjust_loop lib (i # is) w =
     (case adjust_step lib i w of
        Inl e \<Rightarrow> Inl e
      | Inr w' \<Rightarrow> adjust_loop lib is w')"

definition adjust_geometires ::
  "numlib \<Rightarrow> store \<times> planview \<Rightarrow> error \<times> store \<times> planview + store \<times> planview" where
  "adjust_geometires lib w = adjust_loop lib [0 ..< length (raw_geometries (snd w))] w"

definition get_total_length :: "planview \<Rightarrow> real" where
  "get_total_length self = present_s self"

section \<open>The spec's own predicates\<close>

text \<open>
  The combinations of construction inputs that the spec lists as invalid segment
  definitions: an arc with zero curvature, an arc with neither or both of length and
  angle, a parametric cubic in arc-length mode without a length.
\<close>

fun invalid_definition :: "ctor_args \<Rightarrow> bool" where
  "invalid_definition (ArcArgs k l a) =
     (k = 0 \<or> (l = None \<and> a = None) \<or> (l \<noteq> None \<and> a \<noteq> None))"
| "invalid_definition (ParamPoly3Args a1 b1 c1 d1 a2 b2 c2 d2 pr l) =
     (pr = ''arcLength'' \<and> l = None)"
| "invalid_definition (LineArgs l) = False"
| "invalid_definition (SpiralArgs cs ce l) = False"

section \<open>Concrete inputs\<close>

text \<open>A numerical library whose routines return zero, and a store of unit lines.\<close>

definition lib0 :: numlib where
  "lib0 = \<lparr>quad = (\<lambda>f a b. (0, 0)), fresnel = (\<lambda>z. (0, 0))\<rparr>"

definition unit_lines :: store where
  "unit_lines = (\<lambda>a. Line \<lparr>line_length = 1\<rparr>)"

text \<open>Two segments added, a heading override given for the first only.\<close>

definition two_lines_one_override :: planview where
  "two_lines_one_override = add_geometry (add_geometry (PlanView_init 0 0 0) 0 (Some 1)) 1 None"

text \<open>
  The derivatives of the two cubics, and the end heading the spec gives for a
  parametric cubic evaluated at parameter \<open>p\<close>.
\<close>

definition du_dp :: "parampoly3 \<Rightarrow> real \<Rightarrow> real" where
  "du_dp self p = bu self + 2 * cu self * p + 3 * du self * p ^ 2"

definition dv_dp :: "parampoly3 \<Rightarrow> real \<Rightarrow> real" where
  "dv_dp self p = bv self + 2 * cv self * p + 3 * dv self * p ^ 2"

definition spec_end_heading :: "parampoly3 \<Rightarrow> real \<Rightarrow> real \<Rightarrow> real" where
  "spec_end_heading self h p = h + arctan2 (dv_dp self p) (du_dp self p)"

text \<open>
  The centre the spec's sentence places at distance radius from the start point: in the
  direction heading + 90 degrees for a negative curvature, heading - 90 degrees for a
  positive one.
\<close>

definition spec_center :: "arc \<Rightarrow> real \<Rightarrow> real \<Rightarrow> real \<Rightarrow> real \<times> real" where
  "spec_center self x y h =
     (if curvature self < 0
      then (x + Arc_radius self * cos (h + pi / 2), y + Arc_radius self * sin (h + pi / 2))
      else (x + Arc_radius self * cos (h - pi / 2), y + Arc_radius self * sin (h - pi / 2)))"

text \<open>The point \<open>p\<close> rotated about the centre \<open>c\<close> by the angle \<open>a\<close>.\<close>

definition rotate_about :: "real \<times> real \<Rightarrow> real \<Rightarrow> real \<times> real \<Rightarrow> real \<times> real" where
  "rotate_about c a p =
     (fst c + cos a * (fst p - fst c) - sin a * (snd p - snd c),
      snd c + sin a * (fst p - fst c) + cos a * (snd p - snd c))"

text \<open>The pose and the heading of an evaluation result, when there is one.\<close>

definition end_pose :: "error + end_data \<times> 'a \<Rightarrow> (real \<times> real \<times> real) option" where
  "end_pose r = (case r of Inl e \<Rightarrow> None | Inr ((x, y, h, l), s) \<Rightarrow> Some (x, y, h))"

definition end_heading :: "error + end_data \<times> 'a \<Rightarrow> real option" where
  "end_heading r = (case r of Inl e \<Rightarrow> None | Inr ((x, y, h, l), s) \<Rightarrow> Some h)"

text \<open>A right-turning arc, and a cubic whose v component bends (\<open>cv = 1\<close>).\<close>

definition right_turn_arc :: arc where
  "right_turn_arc = \<lparr>curvature = - 1, arc_length = Some 1, angle = None\<rparr>"

definition bent_poly :: parampoly3 where
  "bent_poly = \<lparr>au = 0, bu = 1, cu = 0, du = 0, av = 0, bv = 0, cv = 1, dv = 0,
                 prange = ''normalized'', pp_length = None\<rparr>"

section \<open>Auxiliary notions\<close>

text \<open>
  The constructor of Arc refuses a zero curvature, so every arc that exists has a nonzero
  one; the other kinds carry no such condition.
\<close>

fun wf_geom :: "geom \<Rightarrow> bool" where
  "wf_geom (Arc a) = (curvature a \<noteq> 0)"
| "wf_geom (Line a) = True"
| "wf_geom (Spiral a) = True"
| "wf_geom (ParamPoly3 a) = True"

text \<open>
  The sweep angle an arc's evaluation works with, and the arc as the evaluation leaves it
  (angle and length written back), read off \<open>Arc_get_end_data\<close>.
\<close>

definition Arc_sweep :: "arc \<Rightarrow> real option" where
  "Arc_sweep self =
     (if truthy (arc_length self) then Some (the (arc_length self) * curvature self)
      else angle self)"

definition Arc_written :: "arc \<Rightarrow> arc" where
  "Arc_written self =
     self\<lparr>angle := Arc_sweep self,
          arc_length := (if truthy (Arc_sweep self)
                         then Some \<bar>Arc_radius self * the (Arc_sweep self)\<bar>
                         else arc_length self)\<rparr>"

text \<open>
  A spec is settled when evaluating it, from any pose, returns a length and leaves the
  spec as it is.
\<close>

definition settled :: "numlib \<Rightarrow> geom \<Rightarrow> bool" where
  "settled lib g = (\<forall>x y h. \<exists>ex ey eh l. get_end_data lib g x y h = Inr ((ex, ey, eh, Some l), g))"

section \<open>Repeating an evaluation\<close>

text \<open>The spec as an evaluation leaves it, when the evaluation returns.\<close>

definition spec_after :: "error + end_data \<times> 'a \<Rightarrow> 'a option" where
  "spec_after r = (case r of Inl e \<Rightarrow> None | Inr (d, s) \<Rightarrow> Some s)"

text \<open>An arc given by an angle against the sense of its curvature.\<close>

definition backward_arc :: arc where
  "backward_arc = \<lparr>curvature = 1, arc_length = None, angle = Some (- 1)\<rparr>"

section \<open>The chain of derived geometries\<close>

text \<open>
  A geometry is linked to what follows it (the start arc length and start pose of the next
  geometry, or the plan view's present values) when its end data, evaluated in the store,
  give the next position, and the next heading where headings are not overridden, and its
  start arc length plus its cached length gives the next arc length.
\<close>

definition link :: "numlib \<Rightarrow> store \<Rightarrow> bool \<Rightarrow> geometry \<Rightarrow> real \<times> real \<times> real \<times> real \<Rightarrow> bool" where
  "link lib st free g nxt =
     (\<exists>ex ey eh l. Geometry_get_end_data lib g st = Inr ((ex, ey, eh, Some l), st)
        \<and> fst (snd nxt) = ex \<and> fst (snd (snd nxt)) = ey
        \<and> (free \<longrightarrow> snd (snd (snd nxt)) = eh)
        \<and> g_length g = Some l \<and> g_s g + l = fst nxt)"

definition start_of :: "geometry \<Rightarrow> real \<times> real \<times> real \<times> real" where
  "start_of g = (g_s g, g_x g, g_y g, g_heading g)"

definition cursor :: "planview \<Rightarrow> real \<times> real \<times> real \<times> real" where
  "cursor pv = (present_s pv, present_x pv, present_y pv, present_h pv)"

text \<open>
  The invariant of the finalization loop: the specs of the derived geometries are settled,
  the raw specs are well formed, consecutive geometries are linked, and the last one is
  linked to the present values.
\<close>

definition chained :: "numlib \<Rightarrow> store \<times> planview \<Rightarrow> bool" where
  "chained lib w =
     (let st = fst w; pv = snd w; adj = adjusted_geometries pv;
          free = (overridden_headings pv = [])
      in (\<forall>g \<in> set adj. settled lib (st (geom_type g)))
       \<and> (\<forall>a \<in> set (raw_geometries pv). wf_geom (st a))
       \<and> (\<forall>i. Suc i < length adj \<longrightarrow> link lib st free (adj ! i) (start_of (adj ! Suc i)))
       \<and> (adj \<noteq> [] \<longrightarrow> link lib st True (last adj) (cursor pv)))"

section \<open>Concrete plan views\<close>

text \<open>
  Two unit lines added without heading overrides, and with the overrides 1 and 2; the two
  geometries that finalizing the latter derives.
\<close>

definition two_lines :: planview where
  "two_lines = add_geometry (add_geometry (PlanView_init 0 0 0) 0 None) 1 None"

definition two_lines_two_overrides :: planview where
  "two_lines_two_overrides =
     add_geometry (add_geometry (PlanView_init 0 0 0) 0 (Some 1)) 1 (Some 2)"

definition first_line :: geometry where
  "first_line = \<lparr>g_s = 0, g_x = 0, g_y = 0, g_heading = 1, geom_type = 0, g_length = Some 1\<rparr>"

definition second_line :: geometry where
  "second_line = \<lparr>g_s = 1, g_x = cos 1, g_y = sin 1, g_heading = 2, geom_type = 1,
                   g_length = Some 1\<rparr>"

section \<open>Construction errors\<close>

text \<open>
  C6. Constructing a segment raises exactly on the invalid definitions: an Arc with
  curvature 0, an Arc with neither or both of length and angle, a ParamPoly3 with prange
  'arcLength' and no length. The error is a ValueError of the constructor itself, and every
  other combination of inputs yields the segment spec.
\<close>

theorem construct_raises_iff_invalid:
  "((\<exists>m. construct args = Inl (ValueError m)) = invalid_definition args)
   \<and> ((\<exists>g. construct args = Inr g) = (\<not> invalid_definition args))"
  by (cases args) (auto simp: Line_init_def Spiral_init_def Arc_init_def ParamPoly3_init_def)

section \<open>The finalization loop\<close>

subsection \<open>What one pass and the whole loop leave alone\<close>

lemma adjust_step_Inr:
  assumes "adjust_step lib i (st, pv) = Inr (st', pv')"
  shows "\<exists>g. adjusted_geometries pv' = adjusted_geometries pv @ [g]
             \<and> geom_type g = raw_geometries pv ! i"
    and "raw_geometries pv' = raw_geometries pv"
    and "overridden_headings pv' = overridden_headings pv"
    and "i < length (raw_geometries pv)"
    and "overridden_headings pv = [] \<or> i < length (overridden_headings pv)"
  using assms
  by (auto simp: adjust_step_def Let_def Geometry_init_def
           split: if_splits sum.splits prod.splits option.splits)

lemma adjust_step_Inl_frame:
  assumes "adjust_step lib i (st, pv) = Inl (e, st', pv')"
  shows "adjusted_geometries pv' = adjusted_geometries pv"
    and "raw_geometries pv' = raw_geometries pv"
    and "overridden_headings pv' = overridden_headings pv"
  using assms
  by (auto simp: adjust_step_def Let_def Geometry_init_def
           split: if_splits sum.splits prod.splits option.splits)

lemma adjust_loop_append:
  "adjust_loop lib (xs @ ys) w =
     (case adjust_loop lib xs w of Inl e \<Rightarrow> Inl e | Inr w' \<Rightarrow> adjust_loop lib ys w')"
  by (induction xs arbitrary: w) (auto split: sum.splits)

lemma adjust_loop_Inr:
  "adjust_loop lib is (st, pv) = Inr (st', pv') \<Longrightarrow>
     (\<exists>gs. adjusted_geometries pv' = adjusted_geometries pv @ gs
            \<and> map geom_type gs = map (\<lambda>i. raw_geometries pv ! i) is)
     \<and> raw_geometries pv' = raw_geometries pv
     \<and> overridden_headings pv' = overridden_headings pv"
proof (induction "is" arbitrary: st pv)
  case Nil
  then show ?case by simp
next
  case (Cons i "is")
  from Cons.prems obtain st1 pv1 where
    s: "adjust_step lib i (st, pv) = Inr (st1, pv1)" and
    l: "adjust_loop lib is (st1, pv1) = Inr (st', pv')"
    by (auto split: sum.splits)
  from adjust_step_Inr[OF s] obtain g where
    g: "adjusted_geometries pv1 = adjusted_geometries pv @ [g]"
       "geom_type g = raw_geometries pv ! i"
       "raw_geometries pv1 = raw_geometries pv"
       "overridden_headings pv1 = overridden_headings pv"
    by blast
  from Cons.IH[OF l] obtain gs where
    gs: "adjusted_geometries pv' = adjusted_geometries pv1 @ gs"
        "map geom_type gs = map (\<lambda>i. raw_geometries pv1 ! i) is"
        "raw_geometries pv' = raw_geometries pv1"
        "overridden_headings pv' = overridden_headings pv1"
    by blast
  have "adjusted_geometries pv' = adjusted_geometries pv @ (g # gs)"
    using g gs by simp
  moreover have "map geom_type (g # gs) = map (\<lambda>i. raw_geometries pv ! i) (i # is)"
    using g gs by simp
  ultimately show ?case using g gs by metis
qed

lemma adjust_step_IndexError:
  "0 < length (overridden_headings pv) \<Longrightarrow> \<not> i < length (overridden_headings pv) \<Longrightarrow>
     adjust_step lib i (st, pv) = Inl (IndexError, st, pv)"
  by (simp add: adjust_step_def)

lemma get_end_data_no_IndexError: "get_end_data lib g x y h \<noteq> Inl IndexError"
  by (cases g)
     (auto simp: Spiral_get_end_data_def createFromLengthAndCurvature_def Arc_get_end_data_def
                 ParamPoly3_get_end_data_def Let_def
           split: sum.splits prod.splits option.splits if_splits)

lemma adjust_step_no_IndexError:
  "i < length (raw_geometries pv) \<Longrightarrow>
   overridden_headings pv = [] \<or> i < length (overridden_headings pv) \<Longrightarrow>
     adjust_step lib i (st, pv) \<noteq> Inl (IndexError, w)"
  using get_end_data_no_IndexError
  by (auto simp: adjust_step_def Let_def Geometry_init_def Geometry_get_end_data_def
           split: if_splits sum.splits prod.splits option.splits)

lemma adjust_loop_no_IndexError:
  "\<forall>i \<in> set is. i < length (raw_geometries pv) \<and>
      (overridden_headings pv = [] \<or> i < length (overridden_headings pv)) \<Longrightarrow>
     adjust_loop lib is (st, pv) \<noteq> Inl (IndexError, w)"
proof (induction "is" arbitrary: st pv)
  case Nil
  then show ?case by simp
next
  case (Cons i "is")
  show ?case
  proof (cases "adjust_step lib i (st, pv)")
    case (Inl e)
    then show ?thesis using adjust_step_no_IndexError[of i pv lib st w] Cons.prems by auto
  next
    case (Inr w1)
    obtain st1 pv1 where w1: "w1 = (st1, pv1)" by (cases w1)
    from adjust_step_Inr[OF Inr[unfolded w1]]
    have "raw_geometries pv1 = raw_geometries pv" "overridden_headings pv1 = overridden_headings pv"
      by auto
    then show ?thesis using Cons.IH[of pv1 st1] Cons.prems Inr w1 by auto
  qed
qed

subsection \<open>Heading overrides\<close>

text \<open>
  C9. A heading override that is 0 (or 0.0, or None) is not recorded by add_geometry: the
  override list stays as it was, and the call is the same as one without an override. A
  caller who gives the override 0.0 with every segment ends with an empty override list,
  and finalization runs exactly as if no override had been given.
\<close>

theorem falsy_heading_override_dropped:
  "overridden_headings (add_geometry self a (Some 0)) = overridden_headings self
   \<and> overridden_headings (add_geometry self a None) = overridden_headings self
   \<and> add_geometry self a (Some 0) = add_geometry self a None
   \<and> overridden_headings (foldl (\<lambda>pv a. add_geometry pv a (Some 0)) (PlanView_init x y h) as) = []
   \<and> adjust_geometires lib (st, foldl (\<lambda>pv a. add_geometry pv a (Some 0)) (PlanView_init x y h) as)
       = adjust_geometires lib (st, foldl (\<lambda>pv a. add_geometry pv a None) (PlanView_init x y h) as)"
proof -
  have e: "\<And>pv b. add_geometry pv b (Some 0) = add_geometry pv b None"
    by (simp add: add_geometry_def)
  have f: "overridden_headings (foldl (\<lambda>pv a. add_geometry pv a None) pv0 as) = overridden_headings pv0" for pv0
    by (induction as arbitrary: pv0) (simp_all add: add_geometry_def)
  show ?thesis
    using f[of "PlanView_init x y h"] by (simp add: e) (simp add: add_geometry_def PlanView_init_def)
qed

text \<open>
  C10. When the override list is non-empty and shorter than the raw-geometry list,
  adjust_geometires always fails; once the segments 0 .. len(overrides) - 1 have been
  processed, it fails with an IndexError at index len(overrides), in the state reached
  after those segments, which holds len(overrides) more geometries. When the override list
  is empty or has at least one entry per raw geometry, no IndexError arises.
\<close>

theorem override_index_bounds:
  "(0 < length (overridden_headings pv) \<and> length (overridden_headings pv) < length (raw_geometries pv)
      \<longrightarrow> (\<exists>e w. adjust_geometires lib (st, pv) = Inl (e, w))
        \<and> (\<forall>st' pv'. adjust_loop lib [0 ..< length (overridden_headings pv)] (st, pv) = Inr (st', pv')
             \<longrightarrow> adjust_geometires lib (st, pv) = Inl (IndexError, st', pv')
               \<and> length (adjusted_geometries pv')
                   = length (adjusted_geometries pv) + length (overridden_headings pv)))
   \<and> (overridden_headings pv = [] \<or> length (raw_geometries pv) \<le> length (overridden_headings pv)
      \<longrightarrow> (\<forall>w. adjust_geometires lib (st, pv) \<noteq> Inl (IndexError, w)))"
proof (intro conjI impI allI)
  assume a: "0 < length (overridden_headings pv) \<and> length (overridden_headings pv) < length (raw_geometries pv)"
  let ?k = "length (overridden_headings pv)"
  let ?n = "length (raw_geometries pv)"
  have split: "[0 ..< ?n] = [0 ..< ?k] @ ?k # [Suc ?k ..< ?n]"
    using a by (metis le_add2 less_imp_add_positive upt_add_eq_append upt_conv_Cons
        add.commute less_or_eq_imp_le zero_le)
  {
    fix st' pv'
    assume l: "adjust_loop lib [0 ..< ?k] (st, pv) = Inr (st', pv')"
    from adjust_loop_Inr[OF l] obtain gs where
      gs: "adjusted_geometries pv' = adjusted_geometries pv @ gs"
          "map geom_type gs = map (\<lambda>i. raw_geometries pv ! i) [0 ..< ?k]"
          "overridden_headings pv' = overridden_headings pv"
      by blast
    have "length gs = ?k" using gs(2) by (metis length_map length_upt minus_nat.diff_0)
    then have len: "length (adjusted_geometries pv') = length (adjusted_geometries pv) + ?k"
      using gs(1) by simp
    have "adjust_step lib ?k (st', pv') = Inl (IndexError, st', pv')"
      using adjust_step_IndexError[of pv' ?k lib st'] gs(3) a by simp
    then have "adjust_geometires lib (st, pv) = Inl (IndexError, st', pv')"
      using l by (simp add: adjust_geometires_def split adjust_loop_append)
    note this len
  } note main = this
  show "\<exists>e w. adjust_geometires lib (st, pv) = Inl (e, w)"
  proof (cases "adjust_loop lib [0 ..< ?k] (st, pv)")
    case (Inl ew)
    then show ?thesis
      by (cases ew) (simp add: adjust_geometires_def split adjust_loop_append)
  next
    case (Inr w')
    then show ?thesis using main(1)[of "fst w'" "snd w'"] by auto
  qed
  fix st' pv'
  assume "adjust_loop lib [0 ..< ?k] (st, pv) = Inr (st', pv')"
  from main[OF this]
  show "adjust_geometires lib (st, pv) = Inl (IndexError, st', pv')"
    and "length (adjusted_geometries pv') = length (adjusted_geometries pv) + ?k"
    by auto
next
  fix w
  assume "overridden_headings pv = [] \<or> length (raw_geometries pv) \<le> length (overridden_headings pv)"
  then show "adjust_geometires lib (st, pv) \<noteq> Inl (IndexError, w)"
    unfolding adjust_geometires_def snd_conv
    by (intro adjust_loop_no_IndexError) auto
qed

theorem override_index_bounds_witness:
  "0 < length (overridden_headings two_lines_one_override)
   \<and> length (overridden_headings two_lines_one_override) < length (raw_geometries two_lines_one_override)
   \<and> (\<exists>st' pv'. adjust_geometires lib0 (unit_lines, two_lines_one_override) = Inl (IndexError, st', pv')
                  \<and> length (adjusted_geometries pv') = 1)"
proof -
  have h: "0 < length (overridden_headings two_lines_one_override)
     \<and> length (overridden_headings two_lines_one_override) < length (raw_geometries two_lines_one_override)"
    by (simp add: two_lines_one_override_def add_geometry_def PlanView_init_def)
  have n: "length (overridden_headings two_lines_one_override) = 1"
          "length (adjusted_geometries two_lines_one_override) = 0"
    by (simp_all add: two_lines_one_override_def add_geometry_def PlanView_init_def)
  have "\<exists>st' pv'. adjust_loop lib0 [0 ..< length (overridden_headings two_lines_one_override)]
           (unit_lines, two_lines_one_override) = Inr (st', pv')"
    unfolding n
    by (simp add: two_lines_one_override_def add_geometry_def PlanView_init_def adjust_step_def
        Geometry_init_def Geometry_get_end_data_def Line_get_end_data_def unit_lines_def Let_def)
  then obtain st' pv' where
    l: "adjust_loop lib0 [0 ..< length (overridden_headings two_lines_one_override)]
           (unit_lines, two_lines_one_override) = Inr (st', pv')" by blast
  from override_index_bounds[of two_lines_one_override lib0 unit_lines] h l n
  show ?thesis by auto
qed

section \<open>Segment evaluation\<close>

subsection \<open>ParamPoly3\<close>

text \<open>The integrand of the length is the speed of the curve, with the true derivatives.\<close>

lemma integrand_is_speed:
  "integrand self p = sqrt ((du_dp self p)\<^sup>2 + (dv_dp self p)\<^sup>2)"
  unfolding integrand_def du_dp_def dv_dp_def
  by (rule arg_cong[where f = sqrt]) (simp add: power2_eq_square power3_eq_cube power4_eq_xxxx algebra_simps)

text \<open>What the code adds to the heading: the coefficients without the factors 2 and 3.\<close>

lemma ParamPoly3_end_heading_code:
  "ParamPoly3_get_end_data lib self x y h = Inr ((ex, ey, eh, l), self') \<Longrightarrow>
     \<exists>p. (if prange self = ''normalized'' then p = 1 else pp_length self = Some p)
       \<and> eh = h + arctan2 (bv self + cv self * p + dv self * p ^ 2) (bu self + cu self * p + du self * p ^ 2)"
  by (auto simp: ParamPoly3_get_end_data_def Let_def split: if_splits option.splits) metis

text \<open>
  C1. The end heading of a ParamPoly3 should be h + atan2(v'(p), u'(p)) with the
  derivatives u'(p) = bu + 2 cu p + 3 du p^2 and v'(p) = bv + 2 cv p + 3 dv p^2. For the
  normalized cubic u = p, v = p^2 from the pose (0, 0, 0) the code returns the heading
  pi / 4, where the derivatives give arctan 2.
\<close>

theorem parampoly3_end_heading_diverges:
  "end_heading (get_end_data lib (ParamPoly3 bent_poly) 0 0 0) = Some (pi / 4)
   \<and> spec_end_heading bent_poly 0 1 = arctan 2
   \<and> end_heading (get_end_data lib (ParamPoly3 bent_poly) 0 0 0) \<noteq> Some (spec_end_heading bent_poly 0 1)"
proof -
  have a: "end_heading (get_end_data lib (ParamPoly3 bent_poly) 0 0 0) = Some (pi / 4)"
    by (simp add: end_heading_def ParamPoly3_get_end_data_def bent_poly_def arctan2_def arctan_one)
  have b: "spec_end_heading bent_poly 0 1 = arctan 2"
    by (simp add: spec_end_heading_def du_dp_def dv_dp_def bent_poly_def arctan2_def)
  have "arctan 1 \<noteq> arctan (2::real)" by (simp add: arctan_eq_iff)
  then have "pi / 4 \<noteq> arctan (2::real)" by (simp add: arctan_one)
  with a b show ?thesis by simp
qed

subsection \<open>Arc\<close>

lemma abs_radius_mult:
  fixes k v :: real
  assumes "k \<noteq> 0"
  shows "\<bar>1 / \<bar>k\<bar> * (v * k)\<bar> = \<bar>v\<bar>"
  using assms by (simp add: abs_mult)

lemma abs_radius_mult_abs:
  fixes k A :: real
  assumes "k \<noteq> 0"
  shows "\<bar>1 / \<bar>k\<bar> * (\<bar>1 / \<bar>k\<bar> * A\<bar> * k)\<bar> = \<bar>1 / \<bar>k\<bar> * A\<bar>"
  using assms by (simp add: abs_mult)

lemma Arc_eval_cases:
  "Arc_get_end_data a x y h =
     (if truthy (arc_length a) then
        (let ang = the (arc_length a) * curvature a;
             (phi_0, x_0, y_0) = Arc_center a x y h;
             len = (if ang \<noteq> 0 then Some \<bar>Arc_radius a * ang\<bar> else arc_length a)
         in Inr ((cos (ang + phi_0) * Arc_radius a + x_0, sin (ang + phi_0) * Arc_radius a + y_0,
                  h + ang, len),
                 a\<lparr>angle := Some ang, arc_length := len\<rparr>))
      else (case angle a of None \<Rightarrow> Inl TypeError
            | Some ang \<Rightarrow>
               (let (phi_0, x_0, y_0) = Arc_center a x y h;
                    len = (if ang \<noteq> 0 then Some \<bar>Arc_radius a * ang\<bar> else arc_length a)
                in Inr ((cos (ang + phi_0) * Arc_radius a + x_0, sin (ang + phi_0) * Arc_radius a + y_0,
                  h + ang, len),
                 a\<lparr>arc_length := len\<rparr>))))"
  by (auto simp: Arc_get_end_data_def Let_def split: prod.splits option.splits)

lemma Arc_center_eq:
  "Arc_center self x y h =
     (if curvature self < 0
      then (h + pi / 2, x + Arc_radius self * cos (h - pi / 2), y + Arc_radius self * sin (h - pi / 2))
      else (h - pi / 2, x + Arc_radius self * cos (h + pi / 2), y + Arc_radius self * sin (h + pi / 2)))"
  by (simp add: Arc_center_def Let_def cos_add sin_add cos_diff sin_diff)

lemma rotate_start:
  "rotate_about (x - cos p * r, y - sin p * r) a (x, y)
     = (cos (a + p) * r + (x - cos p * r), sin (a + p) * r + (y - sin p * r))"
  by (simp add: rotate_about_def cos_add sin_add algebra_simps)

text \<open>
  C2 as stated places the centre of a negative-curvature arc in the direction
  heading + 90 degrees from the start point. For the arc of curvature -1 from the pose
  (0, 0, 0) that is the point (0, 1); the code's centre is (0, -1).
\<close>

theorem arc_center_side_counterexample:
  "snd (Arc_center right_turn_arc 0 0 0) = (0, - 1)
   \<and> spec_center right_turn_arc 0 0 0 = (0, 1)
   \<and> snd (Arc_center right_turn_arc 0 0 0) \<noteq> spec_center right_turn_arc 0 0 0"
  by (simp add: Arc_center_def spec_center_def right_turn_arc_def Arc_radius_def Let_def)

text \<open>
  C2, amended. For an arc of nonzero curvature the code takes phi_0 = heading + 90 degrees
  when the curvature is negative and heading - 90 degrees when it is positive, and puts the
  centre at distance radius from the start point against the direction phi_0: to the right
  of the heading (direction heading - 90 degrees) for a negative curvature, to the left
  (heading + 90 degrees) for a positive one. The evaluation returns when a nonzero length or
  an angle is set; the end heading is then h + sweep angle, with the sweep angle that the
  object holds afterwards, and the end position is the start point rotated about the centre
  by the sweep angle.
\<close>

theorem arc_end_data_about_center:
  assumes "curvature self \<noteq> 0"
  shows "Arc_center self x y h =
           (if curvature self < 0
            then (h + pi / 2, x + Arc_radius self * cos (h - pi / 2),
                              y + Arc_radius self * sin (h - pi / 2))
            else (h - pi / 2, x + Arc_radius self * cos (h + pi / 2),
                              y + Arc_radius self * sin (h + pi / 2)))
       \<and> ((\<exists>r. Arc_get_end_data self x y h = Inr r) = (truthy (arc_length self) \<or> angle self \<noteq> None))
       \<and> (\<forall>ex ey eh l self'. Arc_get_end_data self x y h = Inr ((ex, ey, eh, l), self') \<longrightarrow>
            (\<exists>sweep. angle self' = Some sweep
               \<and> sweep = (if truthy (arc_length self) then the (arc_length self) * curvature self
                          else the (angle self))
               \<and> eh = h + sweep
               \<and> (ex, ey) = rotate_about (snd (Arc_center self x y h)) sweep (x, y)))"
proof (intro conjI impI allI)
  show "(\<exists>r. Arc_get_end_data self x y h = Inr r) = (truthy (arc_length self) \<or> angle self \<noteq> None)"
    by (auto simp: Arc_eval_cases Let_def split: prod.splits option.splits)
next
  fix ex ey eh l self'
  assume e: "Arc_get_end_data self x y h = Inr ((ex, ey, eh, l), self')"
  obtain p cx cy where c: "Arc_center self x y h = (p, cx, cy)" by (cases "Arc_center self x y h")
  then have cc: "cx = x - cos p * Arc_radius self" "cy = y - sin p * Arc_radius self"
    by (auto simp: Arc_center_def Let_def split: if_splits)
  show "\<exists>sweep. angle self' = Some sweep
               \<and> sweep = (if truthy (arc_length self) then the (arc_length self) * curvature self
                          else the (angle self))
               \<and> eh = h + sweep
               \<and> (ex, ey) = rotate_about (snd (Arc_center self x y h)) sweep (x, y)"
    using e unfolding c snd_conv cc rotate_start
    by (auto simp: Arc_eval_cases c cc Let_def split: if_splits option.splits)
qed (simp add: Arc_center_eq)

theorem arc_end_data_about_center_witness:
  "curvature right_turn_arc \<noteq> 0
   \<and> snd (Arc_center right_turn_arc 0 0 0) = (0, - 1)
   \<and> (\<exists>ex ey l self'. Arc_get_end_data right_turn_arc 0 0 0 = Inr ((ex, ey, - 1, l), self')
        \<and> angle self' = Some (- 1)
        \<and> (ex, ey) = rotate_about (0, - 1) (- 1) (0, 0))"
proof -
  have h: "curvature right_turn_arc \<noteq> 0" by (simp add: right_turn_arc_def)
  note t = arc_end_data_about_center[OF h, of 0 0 0]
  from t have c: "snd (Arc_center right_turn_arc 0 0 0) = (0, - 1)"
    by (simp add: right_turn_arc_def Arc_radius_def)
  from t have "\<exists>r. Arc_get_end_data right_turn_arc 0 0 0 = Inr r"
    by (simp add: right_turn_arc_def)
  then obtain ex ey eh l self' where
    e: "Arc_get_end_data right_turn_arc 0 0 0 = Inr ((ex, ey, eh, l), self')"
    by (metis prod.exhaust)
  from t e have "\<exists>sweep. angle self' = Some sweep
               \<and> sweep = (if truthy (arc_length right_turn_arc)
                          then the (arc_length right_turn_arc) * curvature right_turn_arc
                          else the (angle right_turn_arc))
               \<and> eh = 0 + sweep
               \<and> (ex, ey) = rotate_about (snd (Arc_center right_turn_arc 0 0 0)) sweep (0, 0)"
    by blast
  then have "angle self' = Some (- 1) \<and> eh = - 1 \<and> (ex, ey) = rotate_about (0, - 1) (- 1) (0, 0)"
    unfolding c by (simp add: right_turn_arc_def)
  with h c e show ?thesis by blast
qed

section \<open>Repeated evaluation of one spec\<close>

lemma truthy_iff: "truthy v \<longleftrightarrow> (\<exists>r. v = Some r \<and> r \<noteq> 0)"
  by (cases v) auto

lemma Arc_eval_written:
  "Arc_get_end_data a x y h =
     (case Arc_sweep a of
        None \<Rightarrow> Inl TypeError
      | Some ang \<Rightarrow>
          Inr ((cos (ang + fst (Arc_center a x y h)) * Arc_radius a + fst (snd (Arc_center a x y h)),
                sin (ang + fst (Arc_center a x y h)) * Arc_radius a + snd (snd (Arc_center a x y h)),
                h + ang, arc_length (Arc_written a)),
               Arc_written a))"
  by (auto simp: Arc_get_end_data_def Arc_sweep_def Arc_written_def Let_def
           split: prod.splits option.splits)

lemma Arc_written_frame [simp]:
  "curvature (Arc_written a) = curvature a"
  "Arc_radius (Arc_written a) = Arc_radius a"
  "Arc_center (Arc_written a) x y h = Arc_center a x y h"
  "angle (Arc_written a) = Arc_sweep a"
  by (simp_all add: Arc_written_def Arc_radius_def Arc_center_def)

lemma Arc_length_written:
  assumes "curvature a \<noteq> 0" "Arc_sweep a = Some ang"
  shows "arc_length (Arc_written a) = (if ang \<noteq> 0 then Some (\<bar>ang\<bar> / \<bar>curvature a\<bar>) else arc_length a)"
  using assms by (simp add: Arc_written_def Arc_radius_def abs_mult)

lemma Arc_sweep_written:
  assumes k: "curvature a \<noteq> 0" and s: "Arc_sweep a = Some ang"
  shows "Arc_sweep (Arc_written a) = Some (if ang \<noteq> 0 then \<bar>ang\<bar> / \<bar>curvature a\<bar> * curvature a else ang)"
proof (cases "ang = 0")
  case True
  then have "arc_length (Arc_written a) = arc_length a" "\<not> truthy (arc_length a)"
    using Arc_length_written[OF k s] s k by (auto simp: Arc_sweep_def truthy_iff split: if_splits)
  then show ?thesis using True s by (simp add: Arc_sweep_def)
next
  case False
  then show ?thesis
    using Arc_length_written[OF k s] k by (simp add: Arc_sweep_def)
qed

lemma Arc_sweep_written_abs:
  assumes k: "curvature a \<noteq> 0" and s: "Arc_sweep a = Some ang"
  shows "\<exists>ang'. Arc_sweep (Arc_written a) = Some ang' \<and> \<bar>ang'\<bar> = \<bar>ang\<bar>"
  using Arc_sweep_written[OF k s] k by (auto simp: abs_mult)

lemma Arc_sweep_written_twice:
  assumes k: "curvature a \<noteq> 0" and s: "Arc_sweep a = Some ang"
  shows "Arc_sweep (Arc_written (Arc_written a)) = Arc_sweep (Arc_written a)"
proof -
  from Arc_sweep_written[OF k s] obtain ang' where
    s': "Arc_sweep (Arc_written a) = Some ang'"
    and v: "ang' = (if ang \<noteq> 0 then \<bar>ang\<bar> / \<bar>curvature a\<bar> * curvature a else ang)" by simp
  have k': "curvature (Arc_written a) \<noteq> 0" using k by simp
  show ?thesis
  proof (cases "ang = 0")
    case True
    then show ?thesis using Arc_sweep_written[OF k' s'] s' v by simp
  next
    case False
    have "\<bar>ang'\<bar> / \<bar>curvature a\<bar> * curvature a = ang'"
      using v k False by (simp add: abs_mult)
    then show ?thesis using Arc_sweep_written[OF k' s'] s' by simp
  qed
qed

lemma Arc_length_written_twice:
  assumes k: "curvature a \<noteq> 0" and s: "Arc_sweep a = Some ang"
  shows "arc_length (Arc_written (Arc_written a)) = arc_length (Arc_written a)"
proof -
  from Arc_sweep_written_abs[OF k s] obtain ang' where
    s': "Arc_sweep (Arc_written a) = Some ang'" and v: "\<bar>ang'\<bar> = \<bar>ang\<bar>" by blast
  have k': "curvature (Arc_written a) \<noteq> 0" using k by simp
  from v have z: "ang' = 0 \<longleftrightarrow> ang = 0" by auto
  show ?thesis
    using Arc_length_written[OF k' s'] Arc_length_written[OF k s] v z by simp
qed

lemma Arc_written_twice:
  assumes k: "curvature a \<noteq> 0" and s: "Arc_sweep a = Some ang"
  shows "Arc_written (Arc_written (Arc_written a)) = Arc_written (Arc_written a)"
proof -
  from Arc_sweep_written_abs[OF k s] obtain ang' where
    s': "Arc_sweep (Arc_written a) = Some ang'" by blast
  have k': "curvature (Arc_written a) \<noteq> 0" using k by simp
  show ?thesis
  proof (rule arc.equality)
    show "curvature (Arc_written (Arc_written (Arc_written a))) = curvature (Arc_written (Arc_written a))"
      by simp
    show "arc_length (Arc_written (Arc_written (Arc_written a))) = arc_length (Arc_written (Arc_written a))"
      using Arc_length_written_twice[OF k' s'] .
    show "angle (Arc_written (Arc_written (Arc_written a))) = angle (Arc_written (Arc_written a))"
      using Arc_sweep_written_twice[OF k s] by simp
    show "arc.more (Arc_written (Arc_written (Arc_written a))) = arc.more (Arc_written (Arc_written a))"
      by (simp add: Arc_written_def)
  qed
qed


lemma Arc_two_evals:
  assumes k: "curvature a \<noteq> 0"
    and e1: "Arc_get_end_data a x y h = Inr ((x1, y1, h1, l1), a1)"
    and e2: "Arc_get_end_data a1 x' y' h' = Inr ((x2, y2, h2, l2), a2)"
  shows "l2 = l1" "curvature a2 = curvature a"
        "Arc_get_end_data a2 x' y' h' = Inr ((x2, y2, h2, l2), a2)"
        "\<exists>ex ey eh. Arc_get_end_data a2 x'' y'' h'' = Inr ((ex, ey, eh, l2), a2)"
proof -
  from e1 obtain ang where s: "Arc_sweep a = Some ang" and a1: "a1 = Arc_written a"
    and l1: "l1 = arc_length (Arc_written a)"
    by (auto simp: Arc_eval_written split: option.splits)
  from e2 obtain ang1 where s1: "Arc_sweep a1 = Some ang1" and a2: "a2 = Arc_written a1"
    and l2: "l2 = arc_length (Arc_written a1)" and h2: "h2 = h' + ang1"
    and x2: "x2 = cos (ang1 + fst (Arc_center a1 x' y' h')) * Arc_radius a1 + fst (snd (Arc_center a1 x' y' h'))"
    and y2: "y2 = sin (ang1 + fst (Arc_center a1 x' y' h')) * Arc_radius a1 + snd (snd (Arc_center a1 x' y' h'))"
    by (auto simp: Arc_eval_written split: option.splits)
  show "l2 = l1" using l1 l2 a1 Arc_length_written_twice[OF k s] by simp
  show "curvature a2 = curvature a" using a1 a2 by simp
  have s2: "Arc_sweep a2 = Some ang1"
    using Arc_sweep_written_twice[OF k s] s1 a1 a2 by simp
  have w2: "Arc_written a2 = a2"
    using Arc_written_twice[OF k s] a1 a2 by simp
  show "Arc_get_end_data a2 x' y' h' = Inr ((x2, y2, h2, l2), a2)"
    by (simp add: Arc_eval_written s2 w2 x2 y2 h2) (simp add: a2 l2)
  show "\<exists>ex ey eh. Arc_get_end_data a2 x'' y'' h'' = Inr ((ex, ey, eh, l2), a2)"
    by (simp add: Arc_eval_written s2 w2) (simp add: a2 l2)
qed

lemma ParamPoly3_eval_norm:
  "prange a = ''normalized'' \<Longrightarrow>
     \<exists>ex ey eh. ParamPoly3_get_end_data lib a x y h =
        Inr ((ex, ey, eh, Some (fst (quad lib (integrand a) 0 1))),
             a\<lparr>pp_length := Some (fst (quad lib (integrand a) 0 1))\<rparr>)"
  by (simp add: ParamPoly3_get_end_data_def Let_def)

lemma ParamPoly3_eval_arclen:
  "prange a \<noteq> ''normalized'' \<Longrightarrow> pp_length a = Some p \<Longrightarrow>
     \<exists>ex ey eh. ParamPoly3_get_end_data lib a x y h = Inr ((ex, ey, eh, Some p), a)"
  by (simp add: ParamPoly3_get_end_data_def Let_def)

lemma ParamPoly3_eval_fail:
  "prange a \<noteq> ''normalized'' \<Longrightarrow> pp_length a = None \<Longrightarrow>
     ParamPoly3_get_end_data lib a x y h = Inl TypeError"
  by (simp add: ParamPoly3_get_end_data_def Let_def)

lemma integrand_pp_length [simp]: "integrand (a\<lparr>pp_length := v\<rparr>) = integrand a"
  by (rule ext) (simp add: integrand_def)

lemma ParamPoly3_two_evals:
  assumes e1: "ParamPoly3_get_end_data lib a x y h = Inr ((x1, y1, h1, l1), a1)"
    and e2: "ParamPoly3_get_end_data lib a1 x' y' h' = Inr ((x2, y2, h2, l2), a2)"
  shows "l2 = l1 \<and> a2 = a1
        \<and> (\<exists>ex ey eh. ParamPoly3_get_end_data lib a1 x'' y'' h'' = Inr ((ex, ey, eh, l2), a1))"
proof (cases "prange a = ''normalized''")
  case True
  let ?q = "fst (quad lib (integrand a) 0 1)"
  from ParamPoly3_eval_norm[OF True, of lib x y h] e1
  have a1: "a1 = a\<lparr>pp_length := Some ?q\<rparr>" and l1: "l1 = Some ?q" by auto
  have n1: "prange a1 = ''normalized''" using True a1 by simp
  have q1: "fst (quad lib (integrand a1) 0 1) = ?q" using a1 by simp
  have w: "a1\<lparr>pp_length := Some ?q\<rparr> = a1" using a1 by simp
  from ParamPoly3_eval_norm[OF n1, of lib x' y' h'] e2
  have "a2 = a1" "l2 = Some ?q" unfolding q1 w by auto
  moreover from ParamPoly3_eval_norm[OF n1, of lib x'' y'' h'']
  have "\<exists>ex ey eh. ParamPoly3_get_end_data lib a1 x'' y'' h'' = Inr ((ex, ey, eh, Some ?q), a1)"
    unfolding q1 w .
  ultimately show ?thesis using l1 by simp
next
  case False
  from e1 False obtain p where p: "pp_length a = Some p"
    using ParamPoly3_eval_fail[OF False, of lib x y h] by (cases "pp_length a") auto
  from ParamPoly3_eval_arclen[OF False p, of lib x y h] e1
  have a1: "a1 = a" and l1: "l1 = Some p" by auto
  from ParamPoly3_eval_arclen[OF False p, of lib x' y' h'] e2 a1
  have "a2 = a1" "l2 = Some p" by auto
  moreover from ParamPoly3_eval_arclen[OF False p, of lib x'' y'' h''] a1
  have "\<exists>ex ey eh. ParamPoly3_get_end_data lib a1 x'' y'' h'' = Inr ((ex, ey, eh, Some p), a1)"
    by simp
  ultimately show ?thesis using l1 by simp
qed

lemma Spiral_eval_indep:
  "Spiral_get_end_data lib a x y h = Inr (x1, y1, h1, l1) \<Longrightarrow>
     l1 = Some (spiral_length a)
     \<and> (\<exists>ex ey eh. Spiral_get_end_data lib a x' y' h' = Inr (ex, ey, eh, l1))"
  by (auto simp: Spiral_get_end_data_def createFromLengthAndCurvature_def Let_def
           split: if_splits prod.splits)

lemma two_evals:
  assumes w: "wf_geom g"
    and e1: "get_end_data lib g x y h = Inr ((x1, y1, h1, l1), g1)"
    and e2: "get_end_data lib g1 x' y' h' = Inr ((x2, y2, h2, l2), g2)"
  shows "l2 = l1" "wf_geom g2"
        "get_end_data lib g2 x' y' h' = Inr ((x2, y2, h2, l2), g2)"
        "\<exists>ex ey eh. get_end_data lib g2 x'' y'' h'' = Inr ((ex, ey, eh, l2), g2)"
proof -
  have "l2 = l1 \<and> wf_geom g2 \<and> get_end_data lib g2 x' y' h' = Inr ((x2, y2, h2, l2), g2)
        \<and> (\<exists>ex ey eh. get_end_data lib g2 x'' y'' h'' = Inr ((ex, ey, eh, l2), g2))"
  proof (cases g)
    case (Line a)
    then show ?thesis using e1 e2 by (auto simp: Line_get_end_data_def)
  next
    case (Spiral a)
    from Spiral e1 have g1: "g1 = Spiral a"
      and s1: "Spiral_get_end_data lib a x y h = Inr (x1, y1, h1, l1)"
      by (auto split: sum.splits)
    from g1 e2 have g2: "g2 = Spiral a"
      and s2: "Spiral_get_end_data lib a x' y' h' = Inr (x2, y2, h2, l2)"
      by (auto split: sum.splits)
    from Spiral_eval_indep[OF s1, of x'' y'' h''] Spiral_eval_indep[OF s2, of x'' y'' h'']
    have "l2 = l1" "\<exists>ex ey eh. Spiral_get_end_data lib a x'' y'' h'' = Inr (ex, ey, eh, l2)"
      by auto
    then show ?thesis using g2 s2 by auto
  next
    case (Arc a)
    from Arc e1 obtain a1 where g1: "g1 = Arc a1"
      and a1: "Arc_get_end_data a x y h = Inr ((x1, y1, h1, l1), a1)"
      by (auto split: sum.splits)
    from g1 e2 obtain a2 where g2: "g2 = Arc a2"
      and a2: "Arc_get_end_data a1 x' y' h' = Inr ((x2, y2, h2, l2), a2)"
      by (auto split: sum.splits)
    have k: "curvature a \<noteq> 0" using w Arc by simp
    from Arc_two_evals(1-3)[OF k a1 a2] Arc_two_evals(4)[OF k a1 a2, of x'' y'' h'']
    show ?thesis
      using g2 k by auto
  next
    case (ParamPoly3 a)
    from ParamPoly3 e1 obtain a1 where g1: "g1 = ParamPoly3 a1"
      and a1: "ParamPoly3_get_end_data lib a x y h = Inr ((x1, y1, h1, l1), a1)"
      by (auto split: sum.splits)
    from g1 e2 obtain a2 where g2: "g2 = ParamPoly3 a2"
      and a2: "ParamPoly3_get_end_data lib a1 x' y' h' = Inr ((x2, y2, h2, l2), a2)"
      by (auto split: sum.splits)
    from ParamPoly3_two_evals[OF a1 a2, of x'' y'' h''] a2 show ?thesis
      using g2 by auto
  qed
  then show "l2 = l1" "wf_geom g2"
        "get_end_data lib g2 x' y' h' = Inr ((x2, y2, h2, l2), g2)"
        "\<exists>ex ey eh. get_end_data lib g2 x'' y'' h'' = Inr ((ex, ey, eh, l2), g2)"
    by blast+
qed

section \<open>Purity of segment evaluation\<close>

text \<open>
  C3 as stated has every field of the spec unchanged and a second evaluation equal to the
  first. The arc of curvature 1 and angle -1, evaluated from (0, 0, 0), comes back with its
  length set to 1; the first evaluation returns the heading -1, the second, of the arc as
  the first left it, the heading 1.
\<close>

theorem evaluation_mutates_arc_counterexample:
  "spec_after (get_end_data lib0 (Arc backward_arc) 0 0 0)
     = Some (Arc (backward_arc\<lparr>arc_length := Some 1\<rparr>))
   \<and> Arc (backward_arc\<lparr>arc_length := Some 1\<rparr>) \<noteq> Arc backward_arc
   \<and> end_heading (get_end_data lib0 (Arc backward_arc) 0 0 0) = Some (- 1)
   \<and> end_heading (get_end_data lib0 (Arc (backward_arc\<lparr>arc_length := Some 1\<rparr>)) 0 0 0) = Some 1"
  by (simp add: spec_after_def end_heading_def backward_arc_def Arc_eval_written Arc_sweep_def
      Arc_written_def Arc_radius_def)

text \<open>
  C3, amended. Evaluating a Line or a Spiral, or a ParamPoly3 that is not in normalized
  mode, leaves the spec unchanged. Evaluating a normalized ParamPoly3 stores the integrated
  length in the spec and changes no other field. Evaluating an Arc keeps the curvature and
  writes the derived angle and length back to the spec. For every Line, Spiral and
  ParamPoly3 a second evaluation from the same start pose returns the result of the first
  and leaves the spec as the first left it. Nothing is said of the second evaluation of an
  Arc, which works from the values written back.
\<close>

theorem evaluation_writes_back:
  assumes "get_end_data lib g x y h = Inr (r, g')"
  shows "(case g of
            Line a \<Rightarrow> g' = g \<and> get_end_data lib g' x y h = Inr (r, g')
          | Spiral a \<Rightarrow> g' = g \<and> get_end_data lib g' x y h = Inr (r, g')
          | ParamPoly3 a \<Rightarrow>
              g' = (if prange a = ''normalized''
                    then ParamPoly3 (a\<lparr>pp_length := Some (fst (quad lib (integrand a) 0 1))\<rparr>)
                    else g)
              \<and> get_end_data lib g' x y h = Inr (r, g')
          | Arc a \<Rightarrow>
              (\<exists>a'. g' = Arc a' \<and> curvature a' = curvature a
                 \<and> angle a' = (if truthy (arc_length a)
                               then Some (the (arc_length a) * curvature a) else angle a)
                 \<and> arc_length a' = (if truthy (angle a')
                                    then Some \<bar>Arc_radius a * the (angle a')\<bar>
                                    else arc_length a)))"
proof (cases g)
  case (Line a)
  then show ?thesis using assms by auto
next
  case (Spiral a)
  then show ?thesis using assms by (auto split: sum.splits)
next
  case (Arc a)
  from Arc assms obtain a1 where g': "g' = Arc a1"
    and e: "Arc_get_end_data a x y h = Inr (r, a1)"
    by (auto split: sum.splits)
  from e have a1: "a1 = Arc_written a" by (auto simp: Arc_eval_written split: option.splits)
  have "curvature a1 = curvature a \<and> angle a1 = (if truthy (arc_length a)
                               then Some (the (arc_length a) * curvature a) else angle a)
                 \<and> arc_length a1 = (if truthy (angle a1)
                                    then Some \<bar>Arc_radius a * the (angle a1)\<bar>
                                    else arc_length a)"
    unfolding a1 by (simp add: Arc_written_def Arc_sweep_def)
  then show ?thesis using Arc g' by simp
next
  case (ParamPoly3 a)
  from ParamPoly3 assms obtain a1 where g': "g' = ParamPoly3 a1"
    and e: "ParamPoly3_get_end_data lib a x y h = Inr (r, a1)"
    by (auto split: sum.splits)
  show ?thesis
  proof (cases "prange a = ''normalized''")
    case True
    let ?q = "fst (quad lib (integrand a) 0 1)"
    from ParamPoly3_eval_norm[OF True, of lib x y h] e
    have a1: "a1 = a\<lparr>pp_length := Some ?q\<rparr>" by auto
    have "ParamPoly3_get_end_data lib a1 x y h = Inr (r, a1)"
      using e True unfolding a1 by (simp add: ParamPoly3_get_end_data_def Let_def)
    then show ?thesis using ParamPoly3 g' a1 True by simp
  next
    case False
    from e False have a1: "a1 = a"
      by (auto simp: ParamPoly3_get_end_data_def Let_def split: option.splits)
    then show ?thesis using ParamPoly3 g' e False by simp
  qed
qed

theorem evaluation_writes_back_witness:
  "\<exists>r. get_end_data lib0 (ParamPoly3 bent_poly) 0 0 0
           = Inr (r, ParamPoly3 (bent_poly\<lparr>pp_length := Some 0\<rparr>))
     \<and> get_end_data lib0 (ParamPoly3 (bent_poly\<lparr>pp_length := Some 0\<rparr>)) 0 0 0
           = Inr (r, ParamPoly3 (bent_poly\<lparr>pp_length := Some 0\<rparr>))"
proof -
  have "\<exists>r g'. get_end_data lib0 (ParamPoly3 bent_poly) 0 0 0 = Inr (r, g')"
    by (simp add: ParamPoly3_get_end_data_def bent_poly_def)
  then obtain r g' where e: "get_end_data lib0 (ParamPoly3 bent_poly) 0 0 0 = Inr (r, g')"
    by blast
  note c = evaluation_writes_back[OF e, unfolded geom.case]
  from c have again: "get_end_data lib0 g' 0 0 0 = Inr (r, g')"
    by (rule conjunct2)
  from c have "g' = (if prange bent_poly = ''normalized''
                     then ParamPoly3 (bent_poly\<lparr>pp_length :=
                            Some (fst (quad lib0 (integrand bent_poly) 0 1))\<rparr>)
                     else ParamPoly3 bent_poly)"
    by (rule conjunct1)
  moreover have "prange bent_poly = ''normalized''" by (simp add: bent_poly_def)
  moreover have "fst (quad lib0 (integrand bent_poly) 0 1) = 0" by (simp add: lib0_def)
  ultimately have "g' = ParamPoly3 (bent_poly\<lparr>pp_length := Some 0\<rparr>)" by simp
  with e again show ?thesis by blast
qed

section \<open>The loop keeps the chain\<close>

lemma settledI:
  assumes "\<And>x y h. \<exists>ex ey eh. get_end_data lib g x y h = Inr ((ex, ey, eh, Some l), g)"
  shows "settled lib g"
  unfolding settled_def using assms by blast

lemma settled_eval:
  assumes "settled lib g" "get_end_data lib g x y h = Inr (r, g')"
  shows "g' = g" "\<exists>l. snd (snd (snd r)) = Some l"
  using assms unfolding settled_def by (metis Inr_inject prod.inject snd_conv)+

lemma adjust_step_effect:
  assumes step: "adjust_step lib i (st, pv) = Inr (st', pv')"
    and wf: "wf_geom (st (raw_geometries pv ! i))"
  shows "\<exists>g l ex ey eh.
           adjusted_geometries pv' = adjusted_geometries pv @ [g]
         \<and> geom_type g = raw_geometries pv ! i
         \<and> g_s g = present_s pv \<and> g_x g = present_x pv \<and> g_y g = present_y pv
         \<and> g_heading g = (if overridden_headings pv = [] then present_h pv
                           else overridden_headings pv ! i)
         \<and> g_length g = Some l
         \<and> present_s pv' = present_s pv + l
         \<and> present_x pv' = ex \<and> present_y pv' = ey \<and> present_h pv' = eh
         \<and> Geometry_get_end_data lib g st' = Inr ((ex, ey, eh, Some l), st')
         \<and> settled lib (st' (geom_type g))
         \<and> wf_geom (st' (geom_type g))
         \<and> (\<forall>b. b \<noteq> geom_type g \<longrightarrow> st' b = st b)
         \<and> (settled lib (st (geom_type g)) \<longrightarrow> st' = st)"
proof -
  let ?a = "raw_geometries pv ! i"
  let ?h = "if overridden_headings pv = [] then present_h pv else overridden_headings pv ! i"
  from step have i: "i < length (raw_geometries pv)"
    by (rule adjust_step_Inr(4))
  from step have o: "overridden_headings pv = [] \<or> i < length (overridden_headings pv)"
    by (rule adjust_step_Inr(5))
  define pv1 where "pv1 = (if length (overridden_headings pv) > 0
                         then pv\<lparr>present_h := overridden_headings pv ! i\<rparr> else pv)"
  have pv1: "present_s pv1 = present_s pv" "present_x pv1 = present_x pv"
    "present_y pv1 = present_y pv" "present_h pv1 = ?h"
    "raw_geometries pv1 = raw_geometries pv" "adjusted_geometries pv1 = adjusted_geometries pv"
    by (simp_all add: pv1_def)
  from step i o have s1: "(case Geometry_init lib (present_s pv) (present_x pv) (present_y pv) ?h ?a st of
                    Inl e \<Rightarrow> Inl (e, st, pv1)
                  | Inr (newgeom, st1) \<Rightarrow>
                      (case Geometry_get_end_data lib newgeom st1 of
                         Inl e \<Rightarrow> Inl (e, st1, pv1)
                       | Inr ((x', y', h', length'), st2) \<Rightarrow>
                           (let self2 = pv1\<lparr>present_x := x', present_y := y', present_h := h'\<rparr>
                            in case length' of
                                 None \<Rightarrow> Inl (TypeError, st2, self2)
                               | Some l \<Rightarrow>
                                   Inr (st2,
                                        self2\<lparr>present_s := present_s self2 + l,
                                               adjusted_geometries :=
                                                 adjusted_geometries self2 @ [newgeom]\<rparr>)))) = Inr (st', pv')"
    unfolding adjust_step_def Let_def prod.case pv1_def[symmetric]
    by (auto simp: pv1 split: if_splits)
  then obtain g st1 where gi: "Geometry_init lib (present_s pv) (present_x pv) (present_y pv) ?h ?a st = Inr (g, st1)"
    by (auto split: sum.splits)
  from gi obtain x1 y1 h1 l1 g1 where
    e1: "get_end_data lib (st ?a) (present_x pv) (present_y pv) ?h = Inr ((x1, y1, h1, l1), g1)"
    and g: "g = \<lparr>g_s = present_s pv, g_x = present_x pv, g_y = present_y pv, g_heading = ?h,
                geom_type = ?a, g_length = l1\<rparr>"
    and st1: "st1 = st(?a := g1)"
    by (auto simp: Geometry_init_def split: sum.splits prod.splits)
  from s1 gi obtain ex ey eh l2 st2 where
    ge: "Geometry_get_end_data lib g st1 = Inr ((ex, ey, eh, l2), st2)"
    by (auto split: sum.splits)
  from ge obtain g2 where
    e2: "get_end_data lib g1 (present_x pv) (present_y pv) ?h = Inr ((ex, ey, eh, l2), g2)"
    and st2: "st2 = st(?a := g2)"
    by (auto simp: Geometry_get_end_data_def g st1 split: sum.splits)
  from s1 gi ge obtain l where l2: "l2 = Some l" and st': "st' = st2"
    and pv': "pv' = pv1\<lparr>present_x := ex, present_y := ey, present_h := eh,
                       present_s := present_s pv1 + l,
                       adjusted_geometries := adjusted_geometries pv1 @ [g]\<rparr>"
    by (auto simp: Let_def split: option.splits)
  note te = two_evals[OF wf e1 e2]
  have l1: "l1 = Some l" using te(1) l2 by simp
  have third: "get_end_data lib g2 (present_x pv) (present_y pv) ?h = Inr ((ex, ey, eh, Some l), g2)"
    using te(3) l2 by simp
  have sett: "settled lib g2"
    by (rule settledI[where l = l]) (use te(4) l2 in simp)
  have gge: "Geometry_get_end_data lib g st' = Inr ((ex, ey, eh, Some l), st')"
    unfolding st' st2 by (simp add: Geometry_get_end_data_def g third)
  have keep: "settled lib (st ?a) \<longrightarrow> st' = st"
  proof
    assume s: "settled lib (st ?a)"
    from settled_eval(1)[OF s e1] have "g1 = st ?a" .
    with settled_eval(1)[OF s, of "present_x pv" "present_y pv" ?h "(ex, ey, eh, l2)" g2] e2
    have "g2 = st ?a" by simp
    then show "st' = st" unfolding st' st2 by simp
  qed
  show ?thesis
    apply (rule exI[of _ g], rule exI[of _ l], rule exI[of _ ex], rule exI[of _ ey], rule exI[of _ eh])
    using gge sett te(2) keep l1
    by (simp add: pv' pv1 g st' st2)
qed


lemma link_store:
  assumes l: "link lib st free g nxt"
    and s: "settled lib (st (geom_type g))"
    and e: "st' (geom_type g) = st (geom_type g)"
  shows "link lib st' free g nxt"
proof -
  from l obtain ex ey eh l where
    ge: "Geometry_get_end_data lib g st = Inr ((ex, ey, eh, Some l), st)"
    and r: "fst (snd nxt) = ex" "fst (snd (snd nxt)) = ey" "free \<longrightarrow> snd (snd (snd nxt)) = eh"
       "g_length g = Some l" "g_s g + l = fst nxt"
    unfolding link_def by blast
  from ge obtain sp where
    ev: "get_end_data lib (st (geom_type g)) (g_x g) (g_y g) (g_heading g) = Inr ((ex, ey, eh, Some l), sp)"
    by (auto simp: Geometry_get_end_data_def split: sum.splits)
  from settled_eval(1)[OF s ev] have sp: "sp = st (geom_type g)" .
  have "st'(geom_type g := st (geom_type g)) = st'"
    using e by (metis fun_upd_triv)
  then have "Geometry_get_end_data lib g st' = Inr ((ex, ey, eh, Some l), st')"
    using ev sp e by (simp add: Geometry_get_end_data_def)
  then show ?thesis unfolding link_def using r by blast
qed

lemma link_weaken: "link lib st True g nxt \<Longrightarrow> link lib st free g nxt"
  unfolding link_def by blast

lemma adjust_step_chained:
  assumes step: "adjust_step lib i (st, pv) = Inr (st', pv')"
    and inv: "chained lib (st, pv)"
  shows "chained lib (st', pv')"
proof -
  let ?adj = "adjusted_geometries pv"
  let ?free = "overridden_headings pv = []"
  from inv have sett: "\<forall>g \<in> set ?adj. settled lib (st (geom_type g))"
    and wf: "\<forall>a \<in> set (raw_geometries pv). wf_geom (st a)"
    and ch: "\<forall>i. Suc i < length ?adj \<longrightarrow> link lib st ?free (?adj ! i) (start_of (?adj ! Suc i))"
    and la: "?adj \<noteq> [] \<longrightarrow> link lib st True (last ?adj) (cursor pv)"
    unfolding chained_def by (simp_all add: Let_def)
  from adjust_step_Inr[OF step] have
    raw: "raw_geometries pv' = raw_geometries pv"
    and ovr: "overridden_headings pv' = overridden_headings pv"
    and i: "i < length (raw_geometries pv)" by auto
  have wfi: "wf_geom (st (raw_geometries pv ! i))" using wf i by simp
  from adjust_step_effect[OF step wfi] obtain g l ex ey eh where
    adj: "adjusted_geometries pv' = ?adj @ [g]"
    and gt: "geom_type g = raw_geometries pv ! i"
    and gs: "g_s g = present_s pv" "g_x g = present_x pv" "g_y g = present_y pv"
    and gh: "g_heading g = (if ?free then present_h pv else overridden_headings pv ! i)"
    and gl: "g_length g = Some l"
    and ps: "present_s pv' = present_s pv + l"
    and pp: "present_x pv' = ex" "present_y pv' = ey" "present_h pv' = eh"
    and ge: "Geometry_get_end_data lib g st' = Inr ((ex, ey, eh, Some l), st')"
    and sg: "settled lib (st' (geom_type g))"
    and wg: "wf_geom (st' (geom_type g))"
    and oth: "\<forall>b. b \<noteq> geom_type g \<longrightarrow> st' b = st b"
    and keep: "settled lib (st (geom_type g)) \<longrightarrow> st' = st"
    by blast
  have same: "st' b = st b" if "settled lib (st b)" for b
    using that oth keep by (cases "b = geom_type g") auto
  have old: "st' (geom_type g') = st (geom_type g')" if "g' \<in> set ?adj" for g'
    using that sett same by blast
  have 1: "\<forall>g' \<in> set (adjusted_geometries pv'). settled lib (st' (geom_type g'))"
    using sett old sg by (auto simp: adj)
  have 2: "\<forall>a \<in> set (raw_geometries pv'). wf_geom (st' a)"
  proof
    fix a assume "a \<in> set (raw_geometries pv')"
    then have "wf_geom (st a)" using wf raw by simp
    then show "wf_geom (st' a)" using oth wg by (cases "a = geom_type g") auto
  qed
  have newlink: "link lib st' True g (cursor pv')"
    unfolding link_def cursor_def using ge gl gs ps pp by simp
  have 3: "\<forall>j. Suc j < length (adjusted_geometries pv') \<longrightarrow>
             link lib st' (overridden_headings pv' = [])
               (adjusted_geometries pv' ! j) (start_of (adjusted_geometries pv' ! Suc j))"
  proof (intro allI impI)
    fix j assume j: "Suc j < length (adjusted_geometries pv')"
    show "link lib st' (overridden_headings pv' = [])
               (adjusted_geometries pv' ! j) (start_of (adjusted_geometries pv' ! Suc j))"
    proof (cases "Suc j < length ?adj")
      case True
      then have m: "?adj ! j \<in> set ?adj" by simp
      from ch True have "link lib st ?free (?adj ! j) (start_of (?adj ! Suc j))" by blast
      from link_store[OF this] sett m old[OF m]
      have "link lib st' ?free (?adj ! j) (start_of (?adj ! Suc j))" by blast
      then show ?thesis using True by (simp add: adj ovr nth_append)
    next
      case False
      with j have jl: "Suc j = length ?adj" by (simp add: adj)
      then have ne: "?adj \<noteq> []" by auto
      have lj: "last ?adj = ?adj ! j" using jl ne by (metis diff_Suc_1 last_conv_nth)
      have m: "last ?adj \<in> set ?adj" using ne by simp
      from la ne have "link lib st True (last ?adj) (cursor pv)" by blast
      from link_store[OF this] sett m old[OF m]
      have lk: "link lib st' True (last ?adj) (cursor pv)" by blast
      have "link lib st' ?free (last ?adj) (start_of g)"
        using lk unfolding link_def cursor_def start_of_def
        by (auto simp: gs gh)
      then show ?thesis using jl lj by (simp add: adj ovr nth_append)
    qed
  qed
  show ?thesis
    unfolding chained_def using 1 2 3 newlink by (simp add: Let_def adj)
qed

lemma adjust_loop_chained:
  "adjust_loop lib is w = Inr w' \<Longrightarrow> chained lib w \<Longrightarrow> chained lib w'"
proof (induction "is" arbitrary: w)
  case Nil
  then show ?case by simp
next
  case (Cons i "is")
  from Cons.prems(1) obtain w1 where
    s: "adjust_step lib i w = Inr w1" and l: "adjust_loop lib is w1 = Inr w'"
    by (auto split: sum.splits)
  have "chained lib w1"
    using adjust_step_chained[of lib i "fst w" "snd w" "fst w1" "snd w1"] s Cons.prems(2) by simp
  from Cons.IH[OF l this] show ?case .
qed

section \<open>Finalizing a fresh plan view\<close>

lemma adjust_step_start:
  assumes "adjust_step lib i (st, pv) = Inr (st', pv')"
  shows "\<exists>g. adjusted_geometries pv' = adjusted_geometries pv @ [g]
             \<and> g_s g = present_s pv
             \<and> (overridden_headings pv \<noteq> [] \<longrightarrow> g_heading g = overridden_headings pv ! i)"
  using assms
  by (auto simp: adjust_step_def Let_def Geometry_init_def
           split: if_splits sum.splits prod.splits option.splits)

lemma adjust_loop_starts:
  "adjust_loop lib is (st, pv) = Inr (st', pv') \<Longrightarrow>
     \<exists>gs. adjusted_geometries pv' = adjusted_geometries pv @ gs
        \<and> length gs = length is
        \<and> (gs \<noteq> [] \<longrightarrow> g_s (hd gs) = present_s pv)
        \<and> (is = [] \<longrightarrow> pv' = pv)
        \<and> (overridden_headings pv \<noteq> [] \<longrightarrow>
             map g_heading gs = map (\<lambda>i. overridden_headings pv ! i) is)"
proof (induction "is" arbitrary: st pv)
  case Nil
  then show ?case by simp
next
  case (Cons i "is")
  from Cons.prems obtain st1 pv1 where
    s: "adjust_step lib i (st, pv) = Inr (st1, pv1)" and
    l: "adjust_loop lib is (st1, pv1) = Inr (st', pv')"
    by (auto split: sum.splits)
  from adjust_step_start[OF s] obtain g where
    g: "adjusted_geometries pv1 = adjusted_geometries pv @ [g]" "g_s g = present_s pv"
       "overridden_headings pv \<noteq> [] \<longrightarrow> g_heading g = overridden_headings pv ! i"
    by blast
  have o: "overridden_headings pv1 = overridden_headings pv"
    using adjust_step_Inr(3)[OF s] .
  from Cons.IH[OF l] obtain gs where
    gs: "adjusted_geometries pv' = adjusted_geometries pv1 @ gs" "length gs = length is"
        "overridden_headings pv1 \<noteq> [] \<longrightarrow>
             map g_heading gs = map (\<lambda>i. overridden_headings pv1 ! i) is"
    by blast
  show ?case
    by (rule exI[of _ "g # gs"]) (use g gs o in simp)
qed

lemma chained_fresh:
  "adjusted_geometries pv = [] \<Longrightarrow> \<forall>a \<in> set (raw_geometries pv). wf_geom (st a) \<Longrightarrow>
     chained lib (st, pv)"
  by (simp add: chained_def Let_def)

lemma finalize_chained:
  assumes fin: "adjust_geometires lib (st, pv) = Inr (st', pv')"
    and fresh: "adjusted_geometries pv = []"
    and wf: "\<forall>a \<in> set (raw_geometries pv). wf_geom (st a)"
  shows "chained lib (st', pv')"
    and "length (adjusted_geometries pv') = length (raw_geometries pv)"
    and "map geom_type (adjusted_geometries pv') = raw_geometries pv"
    and "raw_geometries pv' = raw_geometries pv"
    and "overridden_headings pv' = overridden_headings pv"
    and "adjusted_geometries pv' \<noteq> [] \<longrightarrow> g_s (hd (adjusted_geometries pv')) = present_s pv"
    and "raw_geometries pv = [] \<longrightarrow> pv' = pv"
    and "overridden_headings pv \<noteq> [] \<longrightarrow>
           (\<forall>i < length (adjusted_geometries pv').
              g_heading (adjusted_geometries pv' ! i) = overridden_headings pv ! i)"
proof -
  let ?n = "length (raw_geometries pv)"
  from fin have l: "adjust_loop lib [0 ..< ?n] (st, pv) = Inr (st', pv')"
    by (simp add: adjust_geometires_def)
  show "chained lib (st', pv')"
    using adjust_loop_chained[OF l chained_fresh[OF fresh wf]] .
  from adjust_loop_Inr[OF l] fresh show
    "map geom_type (adjusted_geometries pv') = raw_geometries pv"
    "raw_geometries pv' = raw_geometries pv"
    "overridden_headings pv' = overridden_headings pv"
    by (auto simp: map_nth)
  from adjust_loop_starts[OF l] fresh have
    len: "length (adjusted_geometries pv') = ?n"
    and hd: "adjusted_geometries pv' \<noteq> [] \<longrightarrow> g_s (hd (adjusted_geometries pv')) = present_s pv"
    and em: "raw_geometries pv = [] \<longrightarrow> pv' = pv"
    and hs: "overridden_headings pv \<noteq> [] \<longrightarrow>
             map g_heading (adjusted_geometries pv') = map (\<lambda>i. overridden_headings pv ! i) [0 ..< ?n]"
    by auto
  show "length (adjusted_geometries pv') = ?n" by (rule len)
  show "adjusted_geometries pv' \<noteq> [] \<longrightarrow> g_s (hd (adjusted_geometries pv')) = present_s pv"
    by (rule hd)
  show "raw_geometries pv = [] \<longrightarrow> pv' = pv" by (rule em)
  show "overridden_headings pv \<noteq> [] \<longrightarrow>
           (\<forall>i < length (adjusted_geometries pv').
              g_heading (adjusted_geometries pv' ! i) = overridden_headings pv ! i)"
  proof (intro impI allI)
    fix i assume o: "overridden_headings pv \<noteq> []" and i: "i < length (adjusted_geometries pv')"
    from hs o have "map g_heading (adjusted_geometries pv') ! i
                     = map (\<lambda>i. overridden_headings pv ! i) [0 ..< ?n] ! i" by simp
    then show "g_heading (adjusted_geometries pv' ! i) = overridden_headings pv ! i"
      using i len by simp
  qed
qed

lemma upt_0_2: "[0 ..< 2] = [0, Suc 0]"
  by (simp add: numeral_2_eq_2)

lemma unit_lines_upd [simp]: "unit_lines(a := Line \<lparr>line_length = 1\<rparr>) = unit_lines"
  by (simp add: unit_lines_def fun_eq_iff)

lemma unit_lines_at [simp]: "unit_lines a = Line \<lparr>line_length = 1\<rparr>"
  by (simp add: unit_lines_def)

subsection \<open>Pose continuity\<close>

text \<open>
  C4 as stated has the end pose of each geometry equal to the start pose of the next,
  heading included. With the heading overrides 1 and 2 on two unit lines, the first
  geometry ends with heading 1 and the second starts with heading 2.
\<close>

theorem heading_override_breaks_continuity_counterexample:
  "adjust_geometires lib0 (unit_lines, two_lines_two_overrides)
     = Inr (unit_lines,
            two_lines_two_overrides
              \<lparr>present_x := cos 2 + cos 1, present_y := sin 2 + sin 1, present_h := 2,
               present_s := 2, adjusted_geometries := [first_line, second_line]\<rparr>)
   \<and> end_pose (Geometry_get_end_data lib0 first_line unit_lines) = Some (cos 1, sin 1, 1)
   \<and> end_pose (Geometry_get_end_data lib0 first_line unit_lines)
       \<noteq> Some (g_x second_line, g_y second_line, g_heading second_line)"
  by (simp add: adjust_geometires_def two_lines_two_overrides_def add_geometry_def
      PlanView_init_def upt_0_2 adjust_step_def Geometry_init_def Geometry_get_end_data_def
      Line_get_end_data_def first_line_def second_line_def end_pose_def Let_def)

lemma adjust_step_calls:
  assumes step: "adjust_step lib i (st, pv) = Inr (st', pv')"
  shows "\<exists>g st_m ex ey eh l.
           Geometry_init lib (present_s pv) (present_x pv) (present_y pv) (g_heading g)
             (raw_geometries pv ! i) st = Inr (g, st_m)
         \<and> Geometry_get_end_data lib g st_m = Inr ((ex, ey, eh, Some l), st')
         \<and> adjusted_geometries pv' = adjusted_geometries pv @ [g]
         \<and> g_heading g = (if overridden_headings pv = [] then present_h pv
                           else overridden_headings pv ! i)
         \<and> g_x g = present_x pv \<and> g_y g = present_y pv
         \<and> present_x pv' = ex \<and> present_y pv' = ey \<and> present_h pv' = eh
         \<and> present_s pv' = present_s pv + l"
proof -
  let ?a = "raw_geometries pv ! i"
  let ?h = "if overridden_headings pv = [] then present_h pv else overridden_headings pv ! i"
  from step have i: "i < length (raw_geometries pv)"
    by (rule adjust_step_Inr(4))
  from step have o: "overridden_headings pv = [] \<or> i < length (overridden_headings pv)"
    by (rule adjust_step_Inr(5))
  define pv1 where "pv1 = (if length (overridden_headings pv) > 0
                         then pv\<lparr>present_h := overridden_headings pv ! i\<rparr> else pv)"
  have pv1: "present_s pv1 = present_s pv" "present_x pv1 = present_x pv"
    "present_y pv1 = present_y pv" "present_h pv1 = ?h"
    "raw_geometries pv1 = raw_geometries pv" "adjusted_geometries pv1 = adjusted_geometries pv"
    by (simp_all add: pv1_def)
  from step i o have s1: "(case Geometry_init lib (present_s pv) (present_x pv) (present_y pv) ?h ?a st of
                    Inl e \<Rightarrow> Inl (e, st, pv1)
                  | Inr (newgeom, st1) \<Rightarrow>
                      (case Geometry_get_end_data lib newgeom st1 of
                         Inl e \<Rightarrow> Inl (e, st1, pv1)
                       | Inr ((x', y', h', length'), st2) \<Rightarrow>
                           (let self2 = pv1\<lparr>present_x := x', present_y := y', present_h := h'\<rparr>
                            in case length' of
                                 None \<Rightarrow> Inl (TypeError, st2, self2)
                               | Some l \<Rightarrow>
                                   Inr (st2,
                                        self2\<lparr>present_s := present_s self2 + l,
                                               adjusted_geometries :=
                                                 adjusted_geometries self2 @ [newgeom]\<rparr>)))) = Inr (st', pv')"
    unfolding adjust_step_def Let_def prod.case pv1_def[symmetric]
    by (auto simp: pv1 split: if_splits)
  then obtain g st_m where
    gi: "Geometry_init lib (present_s pv) (present_x pv) (present_y pv) ?h ?a st = Inr (g, st_m)"
    by (auto split: sum.splits)
  from gi have gh: "g_heading g = ?h" "g_x g = present_x pv" "g_y g = present_y pv"
    by (auto simp: Geometry_init_def split: sum.splits prod.splits)
  from s1 gi obtain ex ey eh l2 st2 where
    ge: "Geometry_get_end_data lib g st_m = Inr ((ex, ey, eh, l2), st2)"
    by (auto split: sum.splits)
  from s1 gi ge obtain l where l2: "l2 = Some l" and st': "st' = st2"
    and pv': "pv' = pv1\<lparr>present_x := ex, present_y := ey, present_h := eh,
                       present_s := present_s pv1 + l,
                       adjusted_geometries := adjusted_geometries pv1 @ [g]\<rparr>"
    by (auto simp: Let_def split: option.splits)
  show ?thesis
    apply (rule exI[of _ g], rule exI[of _ st_m], rule exI[of _ ex], rule exI[of _ ey],
           rule exI[of _ eh], rule exI[of _ l])
    using gi ge gh by (simp add: pv' pv1 l2 st')
qed

lemma geom_end_store:
  assumes s: "settled lib (st (geom_type g))"
    and e: "st' (geom_type g) = st (geom_type g)"
    and ge: "Geometry_get_end_data lib g st = Inr (r, st)"
  shows "Geometry_get_end_data lib g st' = Inr (r, st')"
proof -
  from ge obtain sp where
    ev: "get_end_data lib (st (geom_type g)) (g_x g) (g_y g) (g_heading g) = Inr (r, sp)"
    by (auto simp: Geometry_get_end_data_def split: sum.splits)
  from settled_eval(1)[OF s ev] have sp: "sp = st (geom_type g)" .
  have "st'(geom_type g := st (geom_type g)) = st'"
    using e by (metis fun_upd_triv)
  then show ?thesis
    using ev sp e by (simp add: Geometry_get_end_data_def)
qed

lemma adjust_loop_keeps_settled:
  "adjust_loop lib is w = Inr w' \<Longrightarrow> chained lib w \<Longrightarrow> settled lib (fst w b) \<Longrightarrow>
     fst w' b = fst w b"
proof (induction "is" arbitrary: w)
  case Nil
  then show ?case by simp
next
  case (Cons i "is")
  obtain st pv where w: "w = (st, pv)" by (cases w)
  from Cons.prems(1) obtain st1 pv1 where
    s: "adjust_step lib i (st, pv) = Inr (st1, pv1)" and
    l: "adjust_loop lib is (st1, pv1) = Inr w'"
    unfolding w by (auto split: sum.splits)
  from adjust_step_Inr(4)[OF s] Cons.prems(2) have wf: "wf_geom (st (raw_geometries pv ! i))"
    unfolding w chained_def by (simp add: Let_def)
  let ?a = "raw_geometries pv ! i"
  have "(\<forall>b. b \<noteq> ?a \<longrightarrow> st1 b = st b) \<and> (settled lib (st ?a) \<longrightarrow> st1 = st)"
    using adjust_step_effect[OF s wf] by (elim exE conjE) simp
  then have oth: "\<forall>b. b \<noteq> ?a \<longrightarrow> st1 b = st b"
    and keep: "settled lib (st ?a) \<longrightarrow> st1 = st"
    by simp_all
  have same: "st1 b = st b"
    using oth keep Cons.prems(3) unfolding w by (cases "b = ?a") auto
  have c1: "chained lib (st1, pv1)"
    using adjust_step_chained[OF s] Cons.prems(2) unfolding w by simp
  have "settled lib (fst (st1, pv1) b)" using same Cons.prems(3) unfolding w by simp
  from Cons.IH[OF l c1 this] same show ?case unfolding w by simp
qed


lemma upt_split_pair:
  assumes "Suc i < n"
  shows "[0 ..< n] = [0 ..< i] @ i # Suc i # [Suc (Suc i) ..< n]"
proof -
  have "[0 ..< n] = [0 ..< i] @ [i ..< n]"
    using assms by (metis le_add2 less_imp_add_positive upt_add_eq_append add.commute
        less_or_eq_imp_le zero_le Suc_lessD)
  moreover have "[i ..< n] = i # [Suc i ..< n]" using assms by (simp add: upt_conv_Cons)
  moreover have "[Suc i ..< n] = Suc i # [Suc (Suc i) ..< n]" using assms by (simp add: upt_conv_Cons)
  ultimately show ?thesis by simp
qed

text \<open>
  C4, amended. After a plan view whose derived sequence is empty is finalized, there is one
  geometry per raw spec. For every consecutive pair, geometries[i] is the geometry that pass
  i of the loop builds from the present values left by the passes before it, and the start
  position (x, y) of geometries[i+1] is the end position returned by the evaluation of
  geometries[i] that pass i makes right after building it. The start heading of
  geometries[i+1] is the end heading returned by that evaluation when no heading override
  is recorded, and the override of index i+1 otherwise. When the spec of geometries[i] is
  not an arc, evaluating geometries[i] once more, in the store as finalization left it,
  returns that same end pose. An arc's evaluation writes its length and angle back, so what
  a later evaluation of an arc returns is not part of the statement.
\<close>

theorem pose_chaining:
  assumes fin: "adjust_geometires lib (st, pv) = Inr (st', pv')"
    and fresh: "adjusted_geometries pv = []"
    and wf: "\<forall>a \<in> set (raw_geometries pv). wf_geom (st a)"
  shows "length (adjusted_geometries pv') = length (raw_geometries pv)
       \<and> (\<forall>i. Suc i < length (adjusted_geometries pv') \<longrightarrow>
            (\<exists>st_i pv_i st_m st_e ex ey eh l.
               adjust_loop lib [0 ..< i] (st, pv) = Inr (st_i, pv_i)
             \<and> Geometry_init lib (present_s pv_i) (present_x pv_i) (present_y pv_i)
                  (g_heading (adjusted_geometries pv' ! i)) (raw_geometries pv ! i) st_i
                  = Inr (adjusted_geometries pv' ! i, st_m)
             \<and> Geometry_get_end_data lib (adjusted_geometries pv' ! i) st_m
                  = Inr ((ex, ey, eh, Some l), st_e)
             \<and> g_x (adjusted_geometries pv' ! Suc i) = ex
             \<and> g_y (adjusted_geometries pv' ! Suc i) = ey
             \<and> g_heading (adjusted_geometries pv' ! Suc i)
                 = (if overridden_headings pv = [] then eh else overridden_headings pv ! Suc i)
             \<and> ((\<forall>a. st (raw_geometries pv ! i) \<noteq> Arc a) \<longrightarrow>
                  end_pose (Geometry_get_end_data lib (adjusted_geometries pv' ! i) st')
                    = Some (ex, ey, eh))))"
proof (intro conjI allI impI)
  note f = finalize_chained[OF fin fresh wf]
  let ?n = "length (raw_geometries pv)"
  let ?adj = "adjusted_geometries pv'"
  show len: "length ?adj = ?n" by (rule f(2))
  fix i assume i: "Suc i < length ?adj"
  then have i': "Suc i < ?n" using len by simp
  from fin have l: "adjust_loop lib ([0 ..< i] @ i # Suc i # [Suc (Suc i) ..< ?n]) (st, pv) = Inr (st', pv')"
    by (simp add: adjust_geometires_def upt_split_pair[OF i', symmetric])
  then obtain st_i pv_i where
    li: "adjust_loop lib [0 ..< i] (st, pv) = Inr (st_i, pv_i)"
    and l1: "adjust_loop lib (i # Suc i # [Suc (Suc i) ..< ?n]) (st_i, pv_i) = Inr (st', pv')"
    by (auto simp: adjust_loop_append split: sum.splits)
  from l1 obtain st_e pv_e where
    si: "adjust_step lib i (st_i, pv_i) = Inr (st_e, pv_e)"
    and l2: "adjust_loop lib (Suc i # [Suc (Suc i) ..< ?n]) (st_e, pv_e) = Inr (st', pv')"
    by (auto split: sum.splits)
  from l2 obtain st_2 pv_2 where
    s2: "adjust_step lib (Suc i) (st_e, pv_e) = Inr (st_2, pv_2)"
    and l3: "adjust_loop lib [Suc (Suc i) ..< ?n] (st_2, pv_2) = Inr (st', pv')"
    by (auto split: sum.splits)
  from adjust_loop_Inr[OF li] have
    raw_i: "raw_geometries pv_i = raw_geometries pv"
    and ovr_i: "overridden_headings pv_i = overridden_headings pv" by auto
  from adjust_step_Inr[OF si] raw_i ovr_i have
    raw_e: "raw_geometries pv_e = raw_geometries pv"
    and ovr_e: "overridden_headings pv_e = overridden_headings pv" by auto
  from adjust_loop_starts[OF li] fresh have len_i: "length (adjusted_geometries pv_i) = i"
    by auto
  from adjust_step_calls[OF si] obtain g st_m ex ey eh l where
    gi: "Geometry_init lib (present_s pv_i) (present_x pv_i) (present_y pv_i) (g_heading g)
             (raw_geometries pv_i ! i) st_i = Inr (g, st_m)"
    and ge: "Geometry_get_end_data lib g st_m = Inr ((ex, ey, eh, Some l), st_e)"
    and adj_e: "adjusted_geometries pv_e = adjusted_geometries pv_i @ [g]"
    and pe: "present_x pv_e = ex" "present_y pv_e = ey" "present_h pv_e = eh"
    and ps: "present_s pv_e = present_s pv_i + l"
    by blast
  from adjust_step_calls[OF s2] obtain g' where
    adj_2: "adjusted_geometries pv_2 = adjusted_geometries pv_e @ [g']"
    and g': "g_x g' = present_x pv_e" "g_y g' = present_y pv_e"
      "g_heading g' = (if overridden_headings pv_e = [] then present_h pv_e
                       else overridden_headings pv_e ! Suc i)"
    by blast
  from adjust_loop_Inr[OF l3] obtain gs where
    adj': "?adj = adjusted_geometries pv_2 @ gs" by blast
  have ai: "?adj ! i = g" and asi: "?adj ! Suc i = g'"
    using len_i by (simp_all add: adj' adj_2 adj_e nth_append)
  have ci: "chained lib (st_i, pv_i)"
    using adjust_loop_chained[OF li chained_fresh[OF fresh wf]] .
  have wfi: "wf_geom (st_i (raw_geometries pv_i ! i))"
    using ci i' raw_i unfolding chained_def by (simp add: Let_def)
  have eff: "Geometry_get_end_data lib g st_e = Inr ((ex, ey, eh, Some l), st_e)
             \<and> settled lib (st_e (geom_type g))"
    using adjust_step_effect[OF si wfi] adj_e pe ps by (elim exE conjE) simp
  have ce: "chained lib (st_e, pv_e)" using adjust_step_chained[OF si ci] .
  have "fst (st', pv') (geom_type g) = fst (st_e, pv_e) (geom_type g)"
    by (rule adjust_loop_keeps_settled[OF l2 ce]) (use eff in simp)
  then have same: "st' (geom_type g) = st_e (geom_type g)" by simp
  have fin_eval: "Geometry_get_end_data lib g st' = Inr ((ex, ey, eh, Some l), st')"
    using geom_end_store[of lib st_e g st' "(ex, ey, eh, Some l)"] same eff by blast
  show "\<exists>st_i pv_i st_m st_e ex ey eh l.
               adjust_loop lib [0 ..< i] (st, pv) = Inr (st_i, pv_i)
             \<and> Geometry_init lib (present_s pv_i) (present_x pv_i) (present_y pv_i)
                  (g_heading (?adj ! i)) (raw_geometries pv ! i) st_i
                  = Inr (?adj ! i, st_m)
             \<and> Geometry_get_end_data lib (?adj ! i) st_m
                  = Inr ((ex, ey, eh, Some l), st_e)
             \<and> g_x (?adj ! Suc i) = ex
             \<and> g_y (?adj ! Suc i) = ey
             \<and> g_heading (?adj ! Suc i)
                 = (if overridden_headings pv = [] then eh else overridden_headings pv ! Suc i)
             \<and> ((\<forall>a. st (raw_geometries pv ! i) \<noteq> Arc a) \<longrightarrow>
                  end_pose (Geometry_get_end_data lib (?adj ! i) st')
                    = Some (ex, ey, eh))"
    apply (rule exI[of _ st_i], rule exI[of _ pv_i], rule exI[of _ st_m], rule exI[of _ st_e],
           rule exI[of _ ex], rule exI[of _ ey], rule exI[of _ eh], rule exI[of _ l])
    using li gi ge g' pe fin_eval
    by (simp add: ai asi raw_i ovr_e end_pose_def)
qed

lemma two_lines_run:
  "adjust_geometires lib0 (unit_lines, two_lines)
     = Inr (unit_lines,
            two_lines\<lparr>present_x := 2, present_y := 0, present_h := 0, present_s := 2,
                      adjusted_geometries :=
                        [\<lparr>g_s = 0, g_x = 0, g_y = 0, g_heading = 0, geom_type = 0, g_length = Some 1\<rparr>,
                         \<lparr>g_s = 1, g_x = 1, g_y = 0, g_heading = 0, geom_type = 1, g_length = Some 1\<rparr>]\<rparr>)"
  by (simp add: adjust_geometires_def two_lines_def add_geometry_def
      PlanView_init_def upt_0_2 adjust_step_def Geometry_init_def Geometry_get_end_data_def
      Line_get_end_data_def Let_def)

theorem pose_chaining_witness:
  "\<exists>st' pv'. adjust_geometires lib0 (unit_lines, two_lines) = Inr (st', pv')
     \<and> adjusted_geometries two_lines = []
     \<and> (\<forall>a \<in> set (raw_geometries two_lines). wf_geom (unit_lines a))
     \<and> length (adjusted_geometries pv') = 2
     \<and> (\<forall>a. unit_lines (raw_geometries two_lines ! 0) \<noteq> Arc a)
     \<and> end_pose (Geometry_get_end_data lib0 (adjusted_geometries pv' ! 0) st')
         = Some (g_x (adjusted_geometries pv' ! 1), g_y (adjusted_geometries pv' ! 1),
                 g_heading (adjusted_geometries pv' ! 1))"
proof -
  obtain st' pv' where fin: "adjust_geometires lib0 (unit_lines, two_lines) = Inr (st', pv')"
    using two_lines_run by blast
  have fresh: "adjusted_geometries two_lines = []"
    by (simp add: two_lines_def add_geometry_def PlanView_init_def)
  have wf: "\<forall>a \<in> set (raw_geometries two_lines). wf_geom (unit_lines a)" by simp
  have raw: "length (raw_geometries two_lines) = 2" "overridden_headings two_lines = []"
    by (simp_all add: two_lines_def add_geometry_def PlanView_init_def)
  have na: "\<forall>a. unit_lines (raw_geometries two_lines ! 0) \<noteq> Arc a" by simp
  note t = pose_chaining[OF fin fresh wf]
  from t raw have len: "length (adjusted_geometries pv') = 2" by simp
  have lt: "Suc 0 < length (adjusted_geometries pv')" using len by simp
  note c = conjunct2[OF t, rule_format, OF lt]
  from c raw(2) na have
    "\<exists>ex ey eh.
       g_x (adjusted_geometries pv' ! Suc 0) = ex
     \<and> g_y (adjusted_geometries pv' ! Suc 0) = ey
     \<and> g_heading (adjusted_geometries pv' ! Suc 0) = eh
     \<and> end_pose (Geometry_get_end_data lib0 (adjusted_geometries pv' ! 0) st') = Some (ex, ey, eh)"
    by (elim exE conjE) simp
  then have "end_pose (Geometry_get_end_data lib0 (adjusted_geometries pv' ! 0) st')
         = Some (g_x (adjusted_geometries pv' ! 1), g_y (adjusted_geometries pv' ! 1),
                 g_heading (adjusted_geometries pv' ! 1))"
    by auto
  with fin fresh wf len na show ?thesis by blast
qed

section \<open>Finalizing again\<close>

lemma adjust_loop_indices:
  "adjust_loop lib is (st, pv) = Inr w' \<Longrightarrow>
     \<forall>i \<in> set is. i < length (raw_geometries pv)
        \<and> (overridden_headings pv = [] \<or> i < length (overridden_headings pv))"
proof (induction "is" arbitrary: st pv)
  case Nil
  then show ?case by simp
next
  case (Cons i "is")
  from Cons.prems obtain st1 pv1 where
    s: "adjust_step lib i (st, pv) = Inr (st1, pv1)" and
    l: "adjust_loop lib is (st1, pv1) = Inr w'"
    by (auto split: sum.splits)
  from adjust_step_Inr[OF s] Cons.IH[OF l] show ?case by simp
qed

lemma adjust_step_settled:
  assumes s: "settled lib (st (raw_geometries pv ! i))"
    and i: "i < length (raw_geometries pv)"
    and o: "overridden_headings pv = [] \<or> i < length (overridden_headings pv)"
  shows "\<exists>pv'. adjust_step lib i (st, pv) = Inr (st, pv')"
proof -
  let ?a = "raw_geometries pv ! i"
  let ?h = "if overridden_headings pv = [] then present_h pv else overridden_headings pv ! i"
  from s obtain x1 y1 h1 l1 where
    e1: "get_end_data lib (st ?a) (present_x pv) (present_y pv) ?h = Inr ((x1, y1, h1, Some l1), st ?a)"
    unfolding settled_def by blast
  have u: "st(?a := st ?a) = st" by simp
  show ?thesis
    using i o e1
    by (auto simp: adjust_step_def Let_def Geometry_init_def Geometry_get_end_data_def u)
qed

lemma adjust_loop_settled:
  "\<forall>i \<in> set is. settled lib (st (raw_geometries pv ! i)) \<and> i < length (raw_geometries pv)
        \<and> (overridden_headings pv = [] \<or> i < length (overridden_headings pv)) \<Longrightarrow>
     \<exists>pv'. adjust_loop lib is (st, pv) = Inr (st, pv')"
proof (induction "is" arbitrary: pv)
  case Nil
  then show ?case by simp
next
  case (Cons i "is")
  from adjust_step_settled[of lib st pv i] Cons.prems obtain pv1 where
    s: "adjust_step lib i (st, pv) = Inr (st, pv1)" by auto
  from adjust_step_Inr[OF s] have
    "raw_geometries pv1 = raw_geometries pv" "overridden_headings pv1 = overridden_headings pv"
    by auto
  with Cons.prems have "\<forall>i \<in> set is. settled lib (st (raw_geometries pv1 ! i))
        \<and> i < length (raw_geometries pv1)
        \<and> (overridden_headings pv1 = [] \<or> i < length (overridden_headings pv1))" by simp
  from Cons.IH[OF this] obtain pv' where "adjust_loop lib is (st, pv1) = Inr (st, pv')" by blast
  with s show ?case by simp
qed

text \<open>
  C8. When a plan view has been finalized, a second call of adjust_geometires returns as
  well and does not reset the derived sequence: it leaves the geometries of the first call
  in place and appends one more geometry for each raw spec, in order, so that the sequence
  holds every raw spec twice.
\<close>

theorem second_finalize_appends:
  assumes first: "adjust_geometires lib (st, pv) = Inr (st1, pv1)"
    and fresh: "adjusted_geometries pv = []"
    and wf: "\<forall>a \<in> set (raw_geometries pv). wf_geom (st a)"
  shows "\<exists>pv2 gs. adjust_geometires lib (st1, pv1) = Inr (st1, pv2)
           \<and> adjusted_geometries pv2 = adjusted_geometries pv1 @ gs
           \<and> map geom_type gs = raw_geometries pv
           \<and> map geom_type (adjusted_geometries pv1) = raw_geometries pv
           \<and> length (adjusted_geometries pv2) = 2 * length (raw_geometries pv)"
proof -
  let ?n = "length (raw_geometries pv)"
  note f = finalize_chained[OF first fresh wf]
  from first have l: "adjust_loop lib [0 ..< ?n] (st, pv) = Inr (st1, pv1)"
    by (simp add: adjust_geometires_def)
  from f(1) have sett: "\<forall>g \<in> set (adjusted_geometries pv1). settled lib (st1 (geom_type g))"
    unfolding chained_def by (simp add: Let_def)
  have s1: "settled lib (st1 (raw_geometries pv1 ! i))" if "i < ?n" for i
  proof -
    have "raw_geometries pv1 ! i = geom_type (adjusted_geometries pv1 ! i)"
      using f(3) f(4) f(2) that by (metis nth_map)
    moreover have "adjusted_geometries pv1 ! i \<in> set (adjusted_geometries pv1)"
      using f(2) that by simp
    ultimately show ?thesis using sett by simp
  qed
  from adjust_loop_indices[OF l]
  have idx: "\<forall>i \<in> set [0 ..< ?n]. i < length (raw_geometries pv1)
        \<and> (overridden_headings pv1 = [] \<or> i < length (overridden_headings pv1))"
    using f(4) f(5) by simp
  have "\<exists>pv2. adjust_loop lib [0 ..< ?n] (st1, pv1) = Inr (st1, pv2)"
    by (rule adjust_loop_settled) (use idx s1 in auto)
  then obtain pv2 where l2: "adjust_loop lib [0 ..< ?n] (st1, pv1) = Inr (st1, pv2)" by blast
  then have second: "adjust_geometires lib (st1, pv1) = Inr (st1, pv2)"
    by (simp add: adjust_geometires_def f(4))
  from adjust_loop_Inr[OF l2] obtain gs where
    gs: "adjusted_geometries pv2 = adjusted_geometries pv1 @ gs"
        "map geom_type gs = map (\<lambda>i. raw_geometries pv1 ! i) [0 ..< ?n]"
    by blast
  have g2: "map geom_type gs = raw_geometries pv"
    using gs(2) f(4) by (simp add: map_nth)
  then have "length gs = ?n" by (metis length_map)
  then have "length (adjusted_geometries pv2) = 2 * ?n" using gs(1) f(2) by simp
  with second gs(1) g2 f(3) show ?thesis by blast
qed

theorem second_finalize_appends_witness:
  "\<exists>st1 pv1 pv2 gs. adjust_geometires lib0 (unit_lines, two_lines) = Inr (st1, pv1)
     \<and> adjusted_geometries two_lines = []
     \<and> (\<forall>a \<in> set (raw_geometries two_lines). wf_geom (unit_lines a))
     \<and> adjust_geometires lib0 (st1, pv1) = Inr (st1, pv2)
     \<and> adjusted_geometries pv2 = adjusted_geometries pv1 @ gs
     \<and> map geom_type gs = [0, 1]
     \<and> length (adjusted_geometries pv2) = 4"
proof -
  obtain st1 pv1 where fin: "adjust_geometires lib0 (unit_lines, two_lines) = Inr (st1, pv1)"
    using two_lines_run by blast
  have fresh: "adjusted_geometries two_lines = []"
    by (simp add: two_lines_def add_geometry_def PlanView_init_def)
  have wf: "\<forall>a \<in> set (raw_geometries two_lines). wf_geom (unit_lines a)" by simp
  have raw: "raw_geometries two_lines = [0, 1]"
    by (simp add: two_lines_def add_geometry_def PlanView_init_def)
  from second_finalize_appends[OF fin fresh wf] obtain pv2 gs where
    "adjust_geometires lib0 (st1, pv1) = Inr (st1, pv2)"
    "adjusted_geometries pv2 = adjusted_geometries pv1 @ gs"
    "map geom_type gs = raw_geometries two_lines"
    "length (adjusted_geometries pv2) = 2 * length (raw_geometries two_lines)"
    by blast
  with fin fresh wf show ?thesis unfolding raw by auto
qed

end
